theory Spec2Isabelle
  imports Main "HOL-Library.Sublist"
begin

section \<open>The command-script parser of SlashCommandParser.js\<close>

text \<open>
  A shallow embedding of the recursive-descent parser
  (\<^verbatim>\<open>public/scripts/slash-commands/SlashCommandParser.js\<close>, the methods from
  \<^verbatim>\<open>take\<close> to \<^verbatim>\<open>indexMacros\<close>).

  \<^item> The script text is a \<open>string\<close>; a character stands for one code unit below 256.
  \<^item> The parser instance is the record \<open>parser\<close>; every method takes it and returns it
    updated. Objects that the source shares by reference (scopes, closures, executors)
    live in explicit stores inside that record and are named by their position there.
  \<^item> A thrown exception is the \<open>Inl\<close> branch of the result.
  \<^item> Every loop is a recursive function on a fuel argument; running out of fuel is the
    error \<open>OutOfFuel\<close>, which is no outcome of the source.
  \<^item> The collaborators outside the file (command registry, ambient configuration, id
    generator, boolean readers) are the fields of the record \<open>env\<close>.
\<close>

subsection \<open>Data model\<close>

datatype error_kind =
    UnclosedClosure | UnclosedBlockComment | UnclosedComment
  | UnexpectedCommandEnd | UnknownCommand | UnexpectedArgumentEnd
  | UnterminatedQuote | UnterminatedList

text \<open>\<open>SlashCommandParserError kind index\<close>: the exception class of the parser with the
  offset it was given (\<open>None\<close> where the source passes none); \<open>TypeError\<close>: a property
  read on \<^verbatim>\<open>undefined\<close>.\<close>

datatype error =
    SlashCommandParserError error_kind "int option"
  | TypeError
  | OutOfFuel

text \<open>\<^verbatim>\<open>PARSER_FLAG\<close>: \<^verbatim>\<open>STRICT_ESCAPING\<close> is key 1, \<^verbatim>\<open>REPLACE_GETVAR\<close> is key 2.\<close>

record flags =
  STRICT_ESCAPING :: bool
  REPLACE_GETVAR :: bool

text \<open>What the parser reads of a registered \<^verbatim>\<open>SlashCommand\<close>.\<close>

record command =
  unnamedArgumentList_length :: nat
  splitUnnamedArgument :: bool
  splitUnnamedArgumentCount :: "nat option"
  rawQuotes :: bool

text \<open>A value is a string or a reference to a closure in the store.\<close>

datatype val = Str string | Closure nat

text \<open>An unnamed assignment that has been given its value. The assignment object that
  \<^verbatim>\<open>parseUnnamedArgument\<close> fills before it has a value is the record \<open>pending\<close>.\<close>

record pending =
  ua_start :: "int option"
  ua_end :: "int option"

record unnamedAssignment = pending +
  ua_value :: val

record namedAssignment =
  na_start :: "int option"
  na_end :: "int option"
  na_name :: string
  na_value :: "val option"

datatype executor_class = Executor | BreakPoint | Break

text \<open>
  Modelled from the spec: the classes \<^verbatim>\<open>SlashCommandExecutor\<close>, \<^verbatim>\<open>SlashCommandClosure\<close>
  and \<^verbatim>\<open>SlashCommandScope\<close> are imported by the parser and not part of the sources at
  hand. An Executor owns a command name, the resolved command definition, named and
  unnamed argument assignments, source offsets, a snapshot of the parser flags and the
  pipe-injection boolean. A field that the parser never assigns stays \<open>None\<close>; the name
  starts empty and the argument lists start empty, as the parser's
  \<^verbatim>\<open>cmd.name += ...\<close> and \<^verbatim>\<open>cmd.namedArgumentList.push(...)\<close> require.
\<close>

record executor =
  ex_class :: executor_class
  ex_name :: string
  ex_command :: "command option"
  ex_start :: "int option"
  ex_end :: "int option"
  startNamedArgs :: "int option"
  endNamedArgs :: "int option"
  startUnnamedArgs :: "int option"
  endUnnamedArgs :: "int option"
  namedArgumentList :: "namedAssignment list"
  unnamedArgumentList :: "unnamedAssignment list"
  parserFlags :: "flags option"
  injectPipe :: "bool option"

text \<open>A Scope: its own variable names and the link to its parent scope.\<close>

record scope =
  variableNames :: "val list"
  sc_parent :: "nat option"

record closure =
  cl_scope :: nat
  argumentList :: "namedAssignment list"
  executorList :: "nat list"
  rawText :: "string option"
  executeNow :: bool
  cl_parserContext :: string
  fullText :: string
  cl_abortController :: "nat option"
  cl_debugController :: "nat option"

record macroEntry =
  me_start :: int
  me_end :: int
  me_name :: string

text \<open>
  The parser instance. \<open>scopes\<close>, \<open>closures\<close> and \<open>executors\<close> are the stores;
  \<open>scope\<close>, \<open>closure\<close>, \<open>commandIndex\<close>, \<open>scopeIndex\<close> and the executor lists hold
  positions in them. \<open>uuids\<close> counts the ids drawn from the generator so far.
\<close>

record parser =
  verifyCommandNames :: bool
  p_text :: string
  index :: nat
  abortController :: "nat option"
  debugController :: "nat option"
  scope :: "nat option"
  closure :: "nat option"
  flags :: flags
  jumpedEscapeSequence :: bool
  closureIndex :: "(int \<times> int option) list"
  macroIndex :: "macroEntry list"
  commandIndex :: "nat list"
  scopeIndex :: "nat list"
  parserContext :: string
  scopes :: "scope list"
  closures :: "closure list"
  executors :: "executor list"
  uuids :: nat

text \<open>
  The collaborators of the parser: the registry \<^verbatim>\<open>SlashCommandParser.commands\<close>, the
  ambient \<^verbatim>\<open>power_user\<close> settings, \<^verbatim>\<open>uuidv4\<close> (its \<open>k\<close>-th result), \<^verbatim>\<open>isTrueBoolean\<close>
  and \<^verbatim>\<open>isFalseBoolean\<close> of utils.js, the string a closure converts to, and the
  identifier that \<^verbatim>\<open>parseMacroContext\<close> extracts from a macro body.
\<close>

record env =
  commands :: "string \<Rightarrow> command option"
  power_user_flags :: "bool option \<times> bool option"
  experimental_macro_engine :: bool
  uuidv4 :: "nat \<Rightarrow> string"
  isTrueBoolean :: "string \<Rightarrow> bool"
  isFalseBoolean :: "string option \<Rightarrow> bool"
  closureToString :: string
  macroIdentifier :: "string \<Rightarrow> string"

subsection \<open>JavaScript strings\<close>

text \<open>The class \<^verbatim>\<open>\s\<close> on code units below 256, and \<^verbatim>\<open>\w\<close>.\<close>

definition is_space :: "char \<Rightarrow> bool" where
  "is_space c \<longleftrightarrow> c \<in> set [CHR 0x09, CHR 0x0A, CHR 0x0B, CHR 0x0C, CHR 0x0D, CHR '' '', CHR 0xA0]"

definition is_word :: "char \<Rightarrow> bool" where
  "is_word c \<longleftrightarrow> (let n = (of_char c :: nat) in
     (48 \<le> n \<and> n \<le> 57) \<or> (65 \<le> n \<and> n \<le> 90) \<or> (97 \<le> n \<and> n \<le> 122) \<or> n = 95)"

text \<open>\<^verbatim>\<open>text.slice(n)\<close>: a negative start counts from the end.\<close>

definition slice_from :: "string \<Rightarrow> int \<Rightarrow> string" where
  "slice_from t n =
     (if n < 0 then drop (nat (max (int (length t) + n) 0)) t else drop (nat n) t)"

text \<open>\<^verbatim>\<open>text[n]\<close>: \<^verbatim>\<open>undefined\<close> out of range.\<close>

definition char_at :: "string \<Rightarrow> int \<Rightarrow> char option" where
  "char_at t n = (if 0 \<le> n \<and> nat n < length t then Some (t ! nat n) else None)"

text \<open>A character or \<^verbatim>\<open>undefined\<close> converted to a string, as a regular expression test
  and \<^verbatim>\<open>+=\<close> on a string convert it.\<close>

definition to_string :: "char option \<Rightarrow> string" where
  "to_string c = (case c of None \<Rightarrow> ''undefined'' | Some x \<Rightarrow> [x])"

definition trimStart :: "string \<Rightarrow> string" where
  "trimStart v = dropWhile is_space v"

definition trimEnd :: "string \<Rightarrow> string" where
  "trimEnd v = rev (dropWhile is_space (rev v))"

definition trim :: "string \<Rightarrow> string" where
  "trim v = trimEnd (trimStart v)"

fun startsWith :: "string \<Rightarrow> string \<Rightarrow> bool" where
  "startsWith t [] = True"
| "startsWith [] (c # cs) = False"
| "startsWith (x # xs) (c # cs) = (x = c \<and> startsWith xs cs)"

definition backslash :: char where
  "backslash = CHR 0x5C"

text \<open>Lower case of an ASCII letter; the \<^verbatim>\<open>i\<close> flag of a regular expression relates an
  ASCII letter to its two cases only.\<close>

definition lower_char :: "char \<Rightarrow> char" where
  "lower_char c = (let n = (of_char c :: nat) in if 65 \<le> n \<and> n \<le> 90 then char_of (n + 32) else c)"

definition toLowerCase :: "string \<Rightarrow> string" where
  "toLowerCase v = map lower_char v"

subsection \<open>Results and sequencing\<close>

text \<open>A method of the parser is an action on the parser instance: it fails, or returns a
  value and the instance after it.\<close>

type_synonym 'a result = "error + ('a \<times> parser)"

type_synonym 'a action = "parser \<Rightarrow> 'a result"

definition ret :: "'a \<Rightarrow> 'a action" where
  "ret x p = Inr (x, p)"

definition throw :: "error \<Rightarrow> 'a action" where
  "throw e p = Inl e"

text \<open>\<open>bnd m f\<close>: run \<open>m\<close>, then \<open>f\<close> on its value; \<open>seq m k\<close>: run \<open>m\<close>, then \<open>k\<close>.\<close>

definition bnd :: "'a action \<Rightarrow> ('a \<Rightarrow> 'b action) \<Rightarrow> 'b action" where
  "bnd m f p = (case m p of Inl e \<Rightarrow> Inl e | Inr (x, q) \<Rightarrow> f x q)"

definition seq :: "'a action \<Rightarrow> 'b action \<Rightarrow> 'b action" where
  "seq m k p = (bnd m (\<lambda>x. k)) p"

text \<open>\<open>gets f\<close> reads the instance, \<open>modify t\<close> assigns to it.\<close>

definition gets :: "(parser \<Rightarrow> 'a) \<Rightarrow> 'a action" where
  "gets f p = Inr (f p, p)"

definition modify :: "(parser \<Rightarrow> parser) \<Rightarrow> unit action" where
  "modify t p = Inr ((), t p)"

text \<open>\<^verbatim>\<open>a() || b()\<close> runs \<open>b\<close> only when \<open>a\<close> is false.\<close>

definition orElse :: "bool action \<Rightarrow> bool action \<Rightarrow> bool action" where
  "orElse a b p = (bnd a (\<lambda>r. if r then ret True else b)) p"

text \<open>\<^verbatim>\<open>throw new SlashCommandParserError(..., this.text, this.index)\<close>\<close>

definition throw_here :: "error_kind \<Rightarrow> 'a action" where
  "throw_here kind p = (bnd (gets index) (\<lambda>i. throw (SlashCommandParserError kind (Some (int i))))) p"

subsection \<open>Scanner\<close>

definition ahead :: "parser \<Rightarrow> string" where
  "ahead p = slice_from (p_text p) (int (index p) + 1)"

definition behind :: "parser \<Rightarrow> string" where
  "behind p = take (index p) (p_text p)"

definition this_char :: "parser \<Rightarrow> char option" where
  "this_char p = char_at (p_text p) (int (index p))"

text \<open>\<^verbatim>\<open>/\s/.test(x)\<close> and \<^verbatim>\<open>/\w/.test(x)\<close> for a character or \<^verbatim>\<open>undefined\<close>.\<close>

definition test_space :: "char option \<Rightarrow> bool" where
  "test_space c = list_ex is_space (to_string c)"

definition test_word :: "char option \<Rightarrow> bool" where
  "test_word c = list_ex is_word (to_string c)"

definition endOfText :: "parser \<Rightarrow> bool" where
  "endOfText p \<longleftrightarrow> index p \<ge> length (p_text p)
     \<or> (test_space (this_char p) \<and> 0 < length (ahead p) \<and> list_all is_space (ahead p))"

text \<open>\<^verbatim>\<open>take(length)\<close> returns the last character taken.\<close>

definition take_step :: "parser \<Rightarrow> parser" where
  "take_step p = p\<lparr>jumpedEscapeSequence := False, index := index p + 1\<rparr>"

fun take_js :: "nat \<Rightarrow> char option action" where
  "take_js (Suc (Suc n)) p = take_js (Suc n) (take_step p)"
| "take_js n p = Inr (this_char p, take_step p)"

lemma test_space_in_range: "test_space (this_char p) \<Longrightarrow> index p < length (p_text p)"
  by (auto simp: test_space_def this_char_def char_at_def to_string_def is_space_def
      split: if_splits)

function discardWhitespace :: "parser \<Rightarrow> parser" where
  "discardWhitespace p =
     (if test_space (this_char p)
      then discardWhitespace ((take_step p)\<lparr>jumpedEscapeSequence := False\<rparr>)
      else p)"
  by pat_completeness auto
termination
  by (relation "measure (\<lambda>p. length (p_text p) - index p)")
     (auto simp: take_step_def dest: test_space_in_range)

text \<open>The symbols that the parser tests for: a literal sequence, or one of its four
  regular expressions, matched at the start of the text.\<close>

datatype symbol = Lit string | Rx_breakpoint | Rx_break | Rx_comment | Rx_space

fun matches :: "symbol \<Rightarrow> string \<Rightarrow> bool" where
  "matches (Lit s) t = startsWith t s"
| "matches Rx_breakpoint t =
     (startsWith t ''/breakpoint'' \<and> startsWith (dropWhile is_space (drop 11 t)) ''|'')"
| "matches Rx_break t =
     (startsWith t ''/break'' \<and>
       (case drop 6 t of [] \<Rightarrow> True | c # _ \<Rightarrow> is_space c \<or> c = CHR ''|''))"
| "matches Rx_comment t =
     (case t of a # b # _ \<Rightarrow> a = CHR ''/'' \<and> (b = CHR ''/'' \<or> b = CHR ''#'') | _ \<Rightarrow> False)"
| "matches Rx_space t = (case t of c # _ \<Rightarrow> is_space c | [] \<Rightarrow> False)"

text \<open>The one-time skip of the escaping backslash.\<close>

definition jump :: "int \<Rightarrow> parser \<Rightarrow> parser" where
  "jump offset p =
     (if \<not> jumpedEscapeSequence p \<and> offset = 0
      then p\<lparr>index := index p + 1, jumpedEscapeSequence := True\<rparr> else p)"

definition testSymbolLooseyGoosey :: "symbol \<Rightarrow> int \<Rightarrow> bool action" where
  "testSymbolLooseyGoosey sequence offset p =
     (let escapeOffset = (if jumpedEscapeSequence p then - 1 else 0);
          pos = int (index p) + offset + escapeOffset;
          escapes = (if char_at (p_text p) pos = Some backslash then 1 else 0)
      in if matches sequence (slice_from (p_text p) (pos + escapes))
         then (if escapes = 0 then Inr (True, p) else Inr (False, jump offset p))
         else Inr (False, p))"

definition testSymbol :: "symbol \<Rightarrow> int \<Rightarrow> bool action" where
  "testSymbol sequence offset p =
     (if \<not> STRICT_ESCAPING (flags p) then testSymbolLooseyGoosey sequence offset p
      else
        let escapeOffset = (if jumpedEscapeSequence p then - 1 else 0);
            pos = int (index p) + offset + escapeOffset;
            escapes = int (length (takeWhile (\<lambda>c. c = backslash) (slice_from (p_text p) pos)))
        in if matches sequence (slice_from (p_text p) (pos + escapes))
           then (if escapes = 0 then Inr (True, p) else Inr (False, jump offset p))
           else Inr (False, p))"

definition testClosure :: "bool action" where
  "testClosure p = (testSymbol (Lit ''{:'') 0) p"

definition testClosureEnd :: "bool action" where
  "testClosureEnd p =
     (case scope p of
        None \<Rightarrow> Inl TypeError
      | Some sc \<Rightarrow>
          if sc_parent (scopes p ! sc) = None
          then Inr (index p \<ge> length (p_text p), p)
          else if \<not> verifyCommandNames p \<and> index p \<ge> length (p_text p) then Inr (True, p)
          else if verifyCommandNames p \<and> length (ahead p) < 1
            then Inl (SlashCommandParserError UnclosedClosure (Some (int (index p))))
          else testSymbol (Lit '':}'') 0 p)"

definition testCommandEnd :: "bool action" where
  "testCommandEnd p = (orElse testClosureEnd (testSymbol (Lit ''|'') 0)) p"

subsection \<open>Macro index\<close>

definition open_at :: "string \<Rightarrow> nat \<Rightarrow> bool" where
  "open_at t i \<longleftrightarrow> char_at t (int i) = Some (CHR ''{'') \<and> char_at t (int i + 1) = Some (CHR ''{'')"

definition close_at :: "string \<Rightarrow> nat \<Rightarrow> bool" where
  "close_at t i \<longleftrightarrow> char_at t (int i) = Some (CHR ''}'') \<and> char_at t (int i + 1) = Some (CHR ''}'')"

text \<open>The inner loop of \<^verbatim>\<open>indexMacros\<close> that looks for the end of a macro; it returns
  the final \<^verbatim>\<open>i\<close> and \<^verbatim>\<open>macroEnd\<close>.\<close>

function macro_end_loop :: "string \<Rightarrow> nat \<Rightarrow> nat \<Rightarrow> nat \<Rightarrow> nat \<times> nat" where
  "macro_end_loop t i depth macroEnd =
     (if i + 1 < length t \<and> depth > 0 then
        (if open_at t i then macro_end_loop t (i + 2) (depth + 1) macroEnd
         else if close_at t i
           then macro_end_loop t (i + 2) (depth - 1) (if depth - 1 = 0 then i + 2 else macroEnd)
         else macro_end_loop t (i + 1) depth macroEnd)
      else (i, macroEnd))"
  by pat_completeness auto
termination
  by (relation "measure (\<lambda>(t, i, depth, macroEnd). length t - i)") auto

text \<open>The loop that looks for a nested macro inside the content of the one just indexed.\<close>

function nested_scan :: "string \<Rightarrow> nat \<Rightarrow> nat \<Rightarrow> nat" where
  "nested_scan t i contentEnd =
     (if i < contentEnd then
        (if char_at t (int i) = Some (CHR ''{'') \<and> i + 1 < length t
              \<and> char_at t (int i + 1) = Some (CHR ''{'')
         then i else nested_scan t (i + 1) contentEnd)
      else i)"
  by pat_completeness auto
termination
  by (relation "measure (\<lambda>(t, i, contentEnd). contentEnd - i)") auto

lemma nested_scan_ge: "i \<le> nested_scan t i contentEnd"
  by (induction t i contentEnd rule: nested_scan.induct)
     (subst nested_scan.simps, auto simp del: nested_scan.simps)

lemma macro_end_loop_gt: "k < macroEnd \<Longrightarrow> k < i \<Longrightarrow> k < snd (macro_end_loop t i depth macroEnd)"
  by (induction t i depth macroEnd rule: macro_end_loop.induct)
     (subst macro_end_loop.simps, auto simp del: macro_end_loop.simps)

text \<open>Where the outer loop of \<^verbatim>\<open>indexMacros\<close> continues after the macro that starts at
  \<open>macroStart\<close>, and the entry it records for it.\<close>

definition macro_contentEnd :: "string \<Rightarrow> nat \<Rightarrow> nat" where
  "macro_contentEnd t macroEnd = (if macroEnd = length t then macroEnd else macroEnd - 2)"

definition macro_next :: "string \<Rightarrow> nat \<Rightarrow> nat" where
  "macro_next t macroStart =
     (let macroEnd = snd (macro_end_loop t (macroStart + 2) 1 (length t));
          contentEnd = macro_contentEnd t macroEnd;
          i = nested_scan t (macroStart + 2) contentEnd
      in if i \<ge> contentEnd then macroEnd else i)"

definition macro_entry :: "env \<Rightarrow> int \<Rightarrow> string \<Rightarrow> nat \<Rightarrow> macroEntry" where
  "macro_entry E offset t macroStart =
     (let macroEnd = snd (macro_end_loop t (macroStart + 2) 1 (length t));
          contentEnd = macro_contentEnd t macroEnd;
          macroContent = take (contentEnd - (macroStart + 2)) (drop (macroStart + 2) t)
      in \<lparr>me_start = offset + int macroStart, me_end = offset + int macroEnd,
          me_name = macroIdentifier E macroContent\<rparr>)"

lemma macro_next_gt: "Suc macroStart < length t \<Longrightarrow> macroStart < macro_next t macroStart"
proof -
  assume a: "Suc macroStart < length t"
  have 1: "macroStart < snd (macro_end_loop t (macroStart + 2) 1 (length t))"
    using a by (intro macro_end_loop_gt) auto
  have 2: "macroStart + 2 \<le> nested_scan t (macroStart + 2) ce" for ce
    by (rule nested_scan_ge)
  show ?thesis
    unfolding macro_next_def Let_def using 1 2 [of "macro_contentEnd t (snd (macro_end_loop t (macroStart + 2) 1 (length t)))"]
    by (auto simp del: macro_end_loop.simps nested_scan.simps)
qed

function indexMacros_loop :: "env \<Rightarrow> int \<Rightarrow> string \<Rightarrow> nat \<Rightarrow> macroEntry list" where
  "indexMacros_loop E offset t i =
     (if i + 1 < length t then
        (if open_at t i
         then macro_entry E offset t i # indexMacros_loop E offset t (macro_next t i)
         else indexMacros_loop E offset t (i + 1))
      else [])"
  by pat_completeness auto
termination
  by (relation "measure (\<lambda>(E, offset, t, i). length t - i)")
     (auto intro!: diff_less_mono2 dest: macro_next_gt)

definition indexMacros :: "env \<Rightarrow> int \<Rightarrow> string \<Rightarrow> parser \<Rightarrow> parser" where
  "indexMacros E offset t p = p\<lparr>macroIndex := macroIndex p @ indexMacros_loop E offset t 0\<rparr>"

subsection \<open>Stores\<close>

definition new_executor :: "executor_class \<Rightarrow> int \<Rightarrow> executor" where
  "new_executor c start =
     \<lparr>ex_class = c, ex_name = [], ex_command = None, ex_start = Some start, ex_end = None,
      startNamedArgs = None, endNamedArgs = None, startUnnamedArgs = None,
      endUnnamedArgs = None, namedArgumentList = [], unnamedArgumentList = [],
      parserFlags = None, injectPipe = None\<rparr>"

definition new_unnamed :: pending where
  "new_unnamed = \<lparr>ua_start = None, ua_end = None\<rparr>"

definition with_value :: "pending \<Rightarrow> val \<Rightarrow> unnamedAssignment" where
  "with_value a v = \<lparr>ua_start = ua_start a, ua_end = ua_end a, ua_value = v\<rparr>"

text \<open>\<^verbatim>\<open>new SlashCommandExecutor(start)\<close>: the new object gets the next position of the store.\<close>

definition alloc_executor :: "executor \<Rightarrow> nat action" where
  "alloc_executor e p = Inr (length (executors p), p\<lparr>executors := executors p @ [e]\<rparr>)"

definition update_executor :: "nat \<Rightarrow> (executor \<Rightarrow> executor) \<Rightarrow> parser \<Rightarrow> parser" where
  "update_executor c f p = p\<lparr>executors := (executors p)[c := f (executors p ! c)]\<rparr>"

definition update_closure :: "nat \<Rightarrow> (closure \<Rightarrow> closure) \<Rightarrow> parser \<Rightarrow> parser" where
  "update_closure c f p = p\<lparr>closures := (closures p)[c := f (closures p ! c)]\<rparr>"

definition update_scope :: "nat \<Rightarrow> (scope \<Rightarrow> scope) \<Rightarrow> parser \<Rightarrow> parser" where
  "update_scope c f p = p\<lparr>scopes := (scopes p)[c := f (scopes p ! c)]\<rparr>"

text \<open>\<^verbatim>\<open>this.scope.variableNames.push(name)\<close>\<close>

definition push_variableName :: "val \<Rightarrow> unit action" where
  "push_variableName name p =
     (case scope p of
        None \<Rightarrow> Inl TypeError
      | Some sc \<Rightarrow>
          Inr ((), update_scope sc (\<lambda>x. x\<lparr>variableNames := variableNames x @ [name]\<rparr>) p))"

text \<open>\<^verbatim>\<open>this.commandIndex.push(cmd); this.scopeIndex.push(this.scope.getCopy())\<close>. Modelled
  from the spec: \<^verbatim>\<open>getCopy\<close> of the absent class \<^verbatim>\<open>SlashCommandScope\<close> is a shallow copy
  of the name set and the parent link; the copy is a new object of the scope store.\<close>

definition index_command :: "nat \<Rightarrow> unit action" where
  "index_command cmd p =
     (case scope p of
        None \<Rightarrow> Inl TypeError
      | Some sc \<Rightarrow>
          Inr ((), p\<lparr>commandIndex := commandIndex p @ [cmd],
                     scopeIndex := scopeIndex p @ [length (scopes p)],
                     scopes := scopes p @ [scopes p ! sc]\<rparr>))"

text \<open>\<^verbatim>\<open>this.indexMacros(this.index - value.length, value)\<close>\<close>

definition index_value_macros :: "env \<Rightarrow> string \<Rightarrow> parser \<Rightarrow> parser" where
  "index_value_macros E v p = indexMacros E (int (index p) - int (length v)) v p"

subsection \<open>The rewrite of the legacy getter macros\<close>

text \<open>A match of \<^verbatim>\<open>/{{(get(?:global)?var)::([^}]+)}}/gi\<close> at the start of \<open>t\<close>: the two
  groups and the length of the match.\<close>

definition match_getvar :: "string \<Rightarrow> (string \<times> string \<times> nat) option" where
  "match_getvar t =
     (if startsWith t ''{{'' then
        (let r = drop 2 t in
         if startsWith (toLowerCase r) ''get'' then
           (let g = (if startsWith (toLowerCase (drop 3 r)) ''global'' then 6 else 0);
                r1 = drop (3 + g) r in
            if startsWith (toLowerCase r1) ''var'' then
              (let cmd = take (3 + g + 3) r;
                   r2 = drop 3 r1 in
               if startsWith r2 ''::'' then
                 (let name = takeWhile (\<lambda>c. c \<noteq> CHR ''}'') (drop 2 r2);
                      r3 = drop (length name) (drop 2 r2) in
                  if name = [] then None
                  else if startsWith r3 ''}}''
                    then Some (cmd, name, 2 + length cmd + 2 + length name + 2)
                  else None)
               else None)
            else None)
         else None)
      else None)"

lemma match_getvar_pos: "match_getvar t = Some (cmd, name, len) \<Longrightarrow> 0 < len"
  by (auto simp: match_getvar_def Let_def split: if_splits)

definition synthetic :: "env \<Rightarrow> int \<Rightarrow> int \<Rightarrow> string \<Rightarrow> string list \<Rightarrow> executor" where
  "synthetic E startIdx endIdx name args =
     (new_executor Executor startIdx)
       \<lparr>ex_end := Some endIdx, ex_command := commands E name, ex_name := name,
        unnamedArgumentList := map (\<lambda>v. with_value new_unnamed (Str v)) args\<rparr>"

text \<open>\<^verbatim>\<open>this.closure.executorList.push(x)\<close> for a new executor \<open>x\<close>.\<close>

definition push_synthetic :: "executor \<Rightarrow> unit action" where
  "push_synthetic e p =
     (bnd (gets closure) (\<lambda>current.
       case current of
         None \<Rightarrow> throw TypeError
       | Some c \<Rightarrow>
           bnd (alloc_executor e) (\<lambda>x.
             modify (update_closure c (\<lambda>cl. cl\<lparr>executorList := executorList cl @ [x]\<rparr>))))) p"

text \<open>\<^verbatim>\<open>uuidv4()\<close>: the next id of the generator.\<close>

definition draw_uuid :: "env \<Rightarrow> string action" where
  "draw_uuid E p = Inr (uuidv4 E (uuids p), p\<lparr>uuids := uuids p + 1\<rparr>)"

text \<open>The callback of the replacement, for a match of length \<open>len\<close> at \<open>idx\<close> in the value
  \<open>v\<close>: four synthetic statements are appended to the current closure, and the macro text
  becomes a reference to the temporary variable.\<close>

definition replaceGetvar_callback ::
  "env \<Rightarrow> string \<Rightarrow> nat \<Rightarrow> nat \<Rightarrow> string \<Rightarrow> string \<Rightarrow> string action" where
  "replaceGetvar_callback E v idx len cmd0 name0 p =
     (bnd (gets index) (\<lambda>i.
       let name = trim name0;
           cmd = toLowerCase cmd0;
           startIdx = int i - int (length v) + int idx;
           endIdx = int i - int (length v) + int idx + int len
       in bnd (draw_uuid E) (\<lambda>u1.
          let pipeName = ''_PARSER_PIPE_'' @ u1
          in seq (push_synthetic (synthetic E startIdx endIdx ''let'' [pipeName, ''{{pipe}}'']))
            (seq (push_synthetic (synthetic E startIdx endIdx cmd [name]))
            (bnd (draw_uuid E) (\<lambda>u2.
               let varName = ''_PARSER_VAR_'' @ u2
               in seq (push_synthetic
                         (synthetic E startIdx endIdx ''let'' [varName, ''{{pipe}}'']))
                 (seq (push_synthetic
                         (synthetic E startIdx endIdx ''return''
                            [''{{var::'' @ pipeName @ ''}}'']))
                 (ret (''{{var::'' @ varName @ ''}}''))))))))) p"

function replaceGetvar_scan :: "env \<Rightarrow> string \<Rightarrow> nat \<Rightarrow> string action" where
  "replaceGetvar_scan E v idx p =
     (if idx \<ge> length v then ret []
      else case match_getvar (drop idx v) of
        None \<Rightarrow> bnd (replaceGetvar_scan E v (idx + 1)) (\<lambda>r. ret ((v ! idx) # r))
      | Some (cmd, name, len) \<Rightarrow>
          bnd (replaceGetvar_callback E v idx len cmd name) (\<lambda>rep.
          bnd (replaceGetvar_scan E v (idx + len)) (\<lambda>r. ret (rep @ r)))) p"
  by pat_completeness auto
termination
  by (relation "measure (\<lambda>(E, v, idx, p). length v - idx)")
     (auto intro!: diff_less_mono2 dest: match_getvar_pos)

definition replaceGetvar :: "env \<Rightarrow> string \<Rightarrow> string action" where
  "replaceGetvar E v p =
     (if experimental_macro_engine E then ret v else replaceGetvar_scan E v 0) p"

text \<open>\<^verbatim>\<open>if (this.flags[PARSER_FLAG.REPLACE_GETVAR]) value = this.replaceGetvar(value)\<close>\<close>

definition replace_if_flagged :: "env \<Rightarrow> string \<Rightarrow> string action" where
  "replace_if_flagged E v p =
     (bnd (gets (\<lambda>p. REPLACE_GETVAR (flags p))) (\<lambda>on. if on then replaceGetvar E v else ret v)) p"

text \<open>The common tail of the value parsers: the rewrite when its flag is set, then the
  macro index.\<close>

definition finish_value :: "env \<Rightarrow> string \<Rightarrow> string action" where
  "finish_value E v p =
     (bnd (replace_if_flagged E v) (\<lambda>v1. seq (modify (index_value_macros E v1)) (ret v1))) p"

subsection \<open>Value parsers\<close>

definition dquote :: char where
  "dquote = CHR 0x22"

text \<open>The loop \<^verbatim>\<open>while (!test()) value += this.take();\<close>\<close>

fun take_until :: "bool action \<Rightarrow> nat \<Rightarrow> string \<Rightarrow> string action" where
  "take_until test 0 v p = (throw OutOfFuel) p"
| "take_until test (Suc n) v p =
     (bnd test (\<lambda>stop.
       if stop then ret v
       else bnd (take_js 1) (\<lambda>c. take_until test n (v @ to_string c)))) p"

definition testQuotedValue :: "bool action" where
  "testQuotedValue p = (testSymbol (Lit [dquote]) 0) p"

definition testQuotedValueEnd :: "bool action" where
  "testQuotedValueEnd p =
     (bnd (gets endOfText) (\<lambda>atEnd.
     bnd (gets verifyCommandNames) (\<lambda>verify.
     bnd (gets (\<lambda>p. STRICT_ESCAPING (flags p))) (\<lambda>strict.
       if atEnd then (if verify then throw_here UnterminatedQuote else ret True)
       else
         bnd (if \<not> verify then testClosureEnd else ret False) (\<lambda>r1.
           if r1 then ret True
           else
             bnd (if verify \<and> \<not> strict then testCommandEnd else ret False) (\<lambda>r2.
               if r2 then throw_here UnterminatedQuote
               else orElse testQuotedValue
                      (if \<not> strict then testCommandEnd else ret False))))))) p"

definition parseQuotedValue :: "env \<Rightarrow> nat \<Rightarrow> string action" where
  "parseQuotedValue E n p =
     (seq (take_js 1)
       (bnd (take_until testQuotedValueEnd n []) (\<lambda>v.
        seq (take_js 1)
          (finish_value E v)))) p"

definition testListValue :: "bool action" where
  "testListValue p = (testSymbol (Lit ''['') 0) p"

definition testListValueEnd :: "bool action" where
  "testListValueEnd p =
     (bnd (gets endOfText) (\<lambda>atEnd.
       if atEnd then throw_here UnterminatedList else testSymbol (Lit '']'') 0)) p"

definition parseListValue :: "env \<Rightarrow> nat \<Rightarrow> string action" where
  "parseListValue E n p =
     (bnd (take_js 1) (\<lambda>c.
     bnd (take_until testListValueEnd n (to_string c)) (\<lambda>v.
     bnd (take_js 1) (\<lambda>c2.
       finish_value E (v @ to_string c2))))) p"

definition testValue :: "bool action" where
  "testValue p = (bnd (testSymbol Rx_space 0) (\<lambda>b. ret (\<not> b))) p"

definition testValueEnd :: "bool action" where
  "testValueEnd p = (orElse (testSymbol Rx_space 0) testCommandEnd) p"

text \<open>\<^verbatim>\<open>this.jumpedEscapeSequence ? this.take() : ''\<close>: the first character, already
  tested, when it is an escaped one.\<close>

definition take_escaped :: "string action" where
  "take_escaped p =
     (bnd (gets jumpedEscapeSequence) (\<lambda>jumped.
       if jumped then bnd (take_js 1) (\<lambda>c. ret (to_string c)) else ret [])) p"

definition parseValue :: "env \<Rightarrow> nat \<Rightarrow> string action" where
  "parseValue E n p =
     (bnd take_escaped (\<lambda>v0.
     bnd (take_until testValueEnd n v0) (\<lambda>v.
       finish_value E v))) p"

subsection \<open>Named arguments\<close>

text \<open>\<^verbatim>\<open>/^(\w+)=/.test(`${this.char}${this.ahead}`)\<close>\<close>

definition testNamedArgument :: "parser \<Rightarrow> bool" where
  "testNamedArgument p =
     (let t = to_string (this_char p) @ ahead p;
          w = takeWhile is_word t
      in w \<noteq> [] \<and> startsWith (drop (length w) t) ''='')"

text \<open>In the functions below \<open>parseClosure\<close> is the parser of a nested closure; the
  recursion is closed in \<open>parseClosure\<close> itself.\<close>

definition named_value :: "env \<Rightarrow> nat action \<Rightarrow> nat \<Rightarrow> val option action" where
  "named_value E parseClosure n p =
     (bnd testClosure (\<lambda>b1.
       if b1 then bnd parseClosure (\<lambda>c. ret (Some (Closure c)))
       else bnd testQuotedValue (\<lambda>b2.
         if b2 then bnd (parseQuotedValue E n) (\<lambda>v. ret (Some (Str v)))
         else bnd testListValue (\<lambda>b3.
           if b3 then bnd (parseListValue E n) (\<lambda>v. ret (Some (Str v)))
           else bnd testValue (\<lambda>b4.
             if b4 then bnd (parseValue E n) (\<lambda>v. ret (Some (Str v)))
             else ret None))))) p"

definition parseNamedArgument :: "env \<Rightarrow> nat action \<Rightarrow> nat \<Rightarrow> namedAssignment action" where
  "parseNamedArgument E parseClosure n p =
     (bnd (gets index) (\<lambda>start.
     bnd (take_until (gets (\<lambda>q. \<not> test_word (this_char q))) n []) (\<lambda>key.
     seq (take_js 1)
       (bnd (named_value E parseClosure n) (\<lambda>v.
        bnd (gets index) (\<lambda>e.
          ret \<lparr>na_start = Some (int start), na_end = Some (int e),
               na_name = key, na_value = v\<rparr>)))))) p"

text \<open>The loop \<^verbatim>\<open>while (this.testNamedArgument()) { arg = this.parseNamedArgument(); ...;
  this.discardWhitespace(); }\<close>, where \<open>after\<close> is what the caller does with \<open>arg\<close>.\<close>

fun namedArgument_loop ::
  "env \<Rightarrow> nat action \<Rightarrow> (namedAssignment \<Rightarrow> unit action) \<Rightarrow> nat \<Rightarrow> unit action" where
  "namedArgument_loop E parseClosure after 0 p = (throw OutOfFuel) p"
| "namedArgument_loop E parseClosure after (Suc n) p =
     (bnd (gets testNamedArgument) (\<lambda>more.
       if more then
         bnd (parseNamedArgument E parseClosure n) (\<lambda>arg.
         seq (after arg)
           (seq (modify discardWhitespace)
             (namedArgument_loop E parseClosure after n)))
       else ret ())) p"

subsection \<open>Unnamed arguments\<close>

text \<open>The local variables of \<^verbatim>\<open>parseUnnamedArgument\<close>.\<close>

record ua_state =
  u_split :: bool
  u_value :: string
  u_isList :: bool
  u_listValues :: "unnamedAssignment list"
  u_listQuoted :: "bool list"
  u_assignment :: pending

definition truthy :: "nat option \<Rightarrow> bool" where
  "truthy k \<longleftrightarrow> (case k of None \<Rightarrow> False | Some c \<Rightarrow> c \<noteq> 0)"

text \<open>\<^verbatim>\<open>assignment.value = this.parseQuotedValue(); assignment.end = this.index;
  listValues.push(assignment); listQuoted.push(true);
  assignment = new SlashCommandUnnamedArgumentAssignment(); assignment.start = this.index;\<close>\<close>

definition quoted_element :: "env \<Rightarrow> nat \<Rightarrow> ua_state \<Rightarrow> ua_state action" where
  "quoted_element E n u p =
     (bnd (parseQuotedValue E n) (\<lambda>v.
     bnd (gets index) (\<lambda>i.
       ret (u\<lparr>u_listValues := u_listValues u
                  @ [with_value ((u_assignment u)\<lparr>ua_end := Some (int i)\<rparr>) (Str v)],
              u_listQuoted := u_listQuoted u @ [True],
              u_assignment := new_unnamed\<lparr>ua_start := Some (int i)\<rparr>\<rparr>)))) p"

text \<open>One token of split mode: \<^verbatim>\<open>assignment.start = this.index; assignment.value =
  parse(); assignment.end = this.index; listValues.push(assignment);
  listQuoted.push(quoted); assignment = new SlashCommandUnnamedArgumentAssignment();\<close>\<close>

definition split_token :: "string action \<Rightarrow> bool \<Rightarrow> ua_state \<Rightarrow> ua_state action" where
  "split_token parse quoted u p =
     (bnd (gets index) (\<lambda>s.
     bnd parse (\<lambda>v.
     bnd (gets index) (\<lambda>e.
       ret (u\<lparr>u_listValues := u_listValues u
                  @ [with_value ((u_assignment u)\<lparr>ua_start := Some (int s),
                                                   ua_end := Some (int e)\<rparr>) (Str v)],
              u_listQuoted := u_listQuoted u @ [quoted],
              u_assignment := new_unnamed\<rparr>))))) p"

definition split_element :: "env \<Rightarrow> nat \<Rightarrow> ua_state \<Rightarrow> ua_state action" where
  "split_element E n u p =
     (bnd testQuotedValue (\<lambda>b1.
       if b1 then split_token (parseQuotedValue E n) True u
       else bnd testListValue (\<lambda>b2.
         if b2 then split_token (parseListValue E n) False u
         else bnd testValue (\<lambda>b3.
           if b3 then split_token (parseValue E n) False u
           else throw (SlashCommandParserError UnexpectedArgumentEnd None))))) p"

text \<open>The split count has just been reached: splitting stops.\<close>

definition split_cap :: "env \<Rightarrow> nat \<Rightarrow> nat option \<Rightarrow> ua_state \<Rightarrow> ua_state action" where
  "split_cap E n splitCount u p =
     (if u_split u \<and> truthy splitCount \<and> length (u_listValues u) \<ge> the splitCount then
        bnd testQuotedValue (\<lambda>b.
          if b then quoted_element E n (u\<lparr>u_split := False\<rparr>)
          else ret (u\<lparr>u_split := False\<rparr>))
      else ret u) p"

text \<open>An embedded closure: the text gathered so far becomes one element, the closure the
  next one.\<close>

definition text_before_closure :: "env \<Rightarrow> nat \<Rightarrow> ua_state \<Rightarrow> ua_state action" where
  "text_before_closure E n u p =
     (if length (u_value u) > 0 then
        seq (modify (index_value_macros E (u_value u)))
          (bnd (gets index) (\<lambda>i.
             let u2 = u\<lparr>u_listValues := u_listValues u
                           @ [with_value (u_assignment u) (Str (u_value u))],
                       u_listQuoted := u_listQuoted u @ [False],
                       u_assignment := new_unnamed\<lparr>ua_start := Some (int i)\<rparr>\<rparr>
             in if \<not> u_split u2 then
                  bnd testQuotedValue (\<lambda>b.
                    if b then quoted_element E n u2 else ret (u2\<lparr>u_value := []\<rparr>))
                else ret (u2\<lparr>u_value := []\<rparr>)))
      else ret u) p"

definition closure_element :: "env \<Rightarrow> nat action \<Rightarrow> nat \<Rightarrow> ua_state \<Rightarrow> ua_state action" where
  "closure_element E parseClosure n u p =
     (bnd (text_before_closure E n (u\<lparr>u_isList := True\<rparr>)) (\<lambda>u3.
     bnd (gets index) (\<lambda>s.
     bnd parseClosure (\<lambda>c.
     bnd (gets index) (\<lambda>e.
       let u4 = u3\<lparr>u_listValues := u_listValues u3
                     @ [with_value ((u_assignment u3)\<lparr>ua_start := Some (int s),
                                                       ua_end := Some (int e)\<rparr>)
                          (Closure c)],
                   u_assignment := new_unnamed\<lparr>ua_start := Some (int e)\<rparr>\<rparr>
       in seq (if u_split u4 then modify discardWhitespace else ret ())
            (ret u4)))))) p"

fun unnamedArgument_loop ::
  "env \<Rightarrow> nat action \<Rightarrow> nat option \<Rightarrow> nat \<Rightarrow> ua_state \<Rightarrow> ua_state action" where
  "unnamedArgument_loop E parseClosure splitCount 0 u p = (throw OutOfFuel) p"
| "unnamedArgument_loop E parseClosure splitCount (Suc n) u p =
     (bnd testCommandEnd (\<lambda>stop.
       if stop then ret u
       else
         bnd (split_cap E n splitCount u) (\<lambda>u1.
         bnd testClosure (\<lambda>b.
           if b then
             bnd (closure_element E parseClosure n u1)
               (unnamedArgument_loop E parseClosure splitCount n)
           else if u_split u1 then
             bnd (split_element E n u1) (\<lambda>u2.
             seq (modify discardWhitespace)
               (unnamedArgument_loop E parseClosure splitCount n u2))
           else
             bnd (take_js 1) (\<lambda>c.
             bnd (gets index) (\<lambda>i.
               unnamedArgument_loop E parseClosure splitCount n
                 (u1\<lparr>u_value := u_value u1 @ to_string c,
                     u_assignment := (u_assignment u1)\<lparr>ua_end := Some (int i)\<rparr>\<rparr>))))))) p"

definition val_toString :: "env \<Rightarrow> val \<Rightarrow> string" where
  "val_toString E v = (case v of Str x \<Rightarrow> x | Closure c \<Rightarrow> closureToString E)"

text \<open>Only the first element is left-trimmed and only the last one right-trimmed, and
  only if it was not quoted; an element that is empty then is dropped.\<close>

definition trim_first ::
  "unnamedAssignment list \<times> bool list \<Rightarrow> unnamedAssignment list \<times> bool list" where
  "trim_first = (\<lambda>(lv, lq).
     case lv of
       [] \<Rightarrow> (lv, lq)
     | a # rest \<Rightarrow>
         (case ua_value a of
            Closure c \<Rightarrow> (lv, lq)
          | Str x \<Rightarrow>
              let x1 = (if \<not> (lq \<noteq> [] \<and> hd lq) then trimStart x else x)
              in if length x1 = 0 then (rest, tl lq) else (a\<lparr>ua_value := Str x1\<rparr> # rest, lq)))"

definition trim_last ::
  "unnamedAssignment list \<times> bool list \<Rightarrow> unnamedAssignment list \<times> bool list" where
  "trim_last = (\<lambda>(lv, lq).
     if lv = [] then (lv, lq)
     else
       (case ua_value (last lv) of
          Closure c \<Rightarrow> (lv, lq)
        | Str x \<Rightarrow>
            let x1 = (if \<not> (lq \<noteq> [] \<and> last lq) then trimEnd x else x)
            in if length x1 = 0 then (butlast lv, butlast lq)
               else (butlast lv @ [(last lv)\<lparr>ua_value := Str x1\<rparr>], lq)))"

text \<open>More values than the split count allows: the parts beyond it are joined into one
  and the quotes restored.\<close>

definition join_overflow ::
  "env \<Rightarrow> bool \<Rightarrow> nat option \<Rightarrow> unnamedAssignment list \<times> bool list \<Rightarrow> unnamedAssignment list" where
  "join_overflow E wasSplit splitCount = (\<lambda>(lv, lq).
     if wasSplit \<and> truthy splitCount \<and> the splitCount + 1 < length lv then
       (let k = the splitCount;
            joined = \<lparr>ua_start = ua_start (lv ! k), ua_end = ua_end (last lv),
                      ua_value = Str (concat (map (\<lambda>i.
                         if i < length lq \<and> lq ! i
                         then [dquote] @ val_toString E (ua_value (lv ! i)) @ [dquote]
                         else val_toString E (ua_value (lv ! i))) [k ..< length lv]))\<rparr>
        in take k lv @ [joined])
     else lv)"

text \<open>\<^verbatim>\<open>parseUnnamedArgument\<close> up to the end of its loop.\<close>

definition scan_unnamed ::
  "env \<Rightarrow> nat action \<Rightarrow> nat \<Rightarrow> bool \<Rightarrow> nat option \<Rightarrow> bool \<Rightarrow> ua_state action" where
  "scan_unnamed E parseClosure n split splitCount raw p =
     (bnd take_escaped (\<lambda>v0.
     bnd (gets index) (\<lambda>i.
       let u0 = \<lparr>u_split = split, u_value = v0, u_isList = split, u_listValues = [],
                 u_listQuoted = [],
                 u_assignment = new_unnamed\<lparr>ua_start := Some (int i)\<rparr>\<rparr>
       in bnd (if \<not> split \<and> \<not> raw then
                 bnd testQuotedValue (\<lambda>b.
                   if b then bnd (quoted_element E n u0) (\<lambda>u. ret (u\<lparr>u_isList := True\<rparr>))
                   else ret u0)
               else ret u0)
            (unnamedArgument_loop E parseClosure splitCount n)))) p"

text \<open>The end of \<^verbatim>\<open>parseUnnamedArgument\<close>: the list with its ends trimmed, or the one
  value.\<close>

definition finish_list :: "env \<Rightarrow> bool \<Rightarrow> nat option \<Rightarrow> ua_state \<Rightarrow> unnamedAssignment list" where
  "finish_list E wasSplit splitCount u =
     (let u3 = (if length (u_value u) > 0
                then u\<lparr>u_listValues := u_listValues u
                           @ [with_value (u_assignment u) (Str (u_value u))],
                       u_listQuoted := u_listQuoted u @ [False]\<rparr>
                else u)
      in join_overflow E wasSplit splitCount
           (trim_last (trim_first (u_listValues u3, u_listQuoted u3))))"

definition parseUnnamedArgument ::
  "env \<Rightarrow> nat action \<Rightarrow> nat \<Rightarrow> bool \<Rightarrow> nat option \<Rightarrow> bool \<Rightarrow> unnamedAssignment list action" where
  "parseUnnamedArgument E parseClosure n split splitCount raw p =
     (bnd (scan_unnamed E parseClosure n split splitCount raw) (\<lambda>u.
       if u_isList u then ret (finish_list E split splitCount u)
       else
         seq (modify (index_value_macros E (u_value u)))
           (bnd (replace_if_flagged E (trim (u_value u))) (\<lambda>v.
              ret [with_value (u_assignment u) (Str v)])))) p"

subsection \<open>Comments\<close>

text \<open>An assignment to fields of the executor \<open>cmd\<close>.\<close>

definition set_executor :: "nat \<Rightarrow> (executor \<Rightarrow> executor) \<Rightarrow> unit action" where
  "set_executor cmd f p = (modify (update_executor cmd f)) p"

definition testBlockComment :: "bool action" where
  "testBlockComment p = (testSymbol (Lit ''/*'') 0) p"

definition testBlockCommentEnd :: "bool action" where
  "testBlockCommentEnd p =
     (if \<not> verifyCommandNames p \<and> index p \<ge> length (p_text p) then Inr (True, p)
      else if verifyCommandNames p \<and> length (ahead p) < 1
        then Inl (SlashCommandParserError UnclosedBlockComment (Some (int (index p))))
      else testSymbol (Lit ''*|'') 0 p)"

text \<open>\<^verbatim>\<open>cmd.name = this.take()\<close> stores the character as a string.\<close>

fun parseBlockComment :: "env \<Rightarrow> nat \<Rightarrow> unit action"
  and blockComment_loop :: "env \<Rightarrow> nat \<Rightarrow> unit action" where
  "parseBlockComment E 0 p = (throw OutOfFuel) p"
| "parseBlockComment E (Suc n) p =
     (bnd (gets index) (\<lambda>i.
     bnd (alloc_executor
            ((new_executor Executor (int i + 1))\<lparr>ex_command := commands E ''*''\<rparr>)) (\<lambda>cmd.
     seq (index_command cmd)
       (seq (take_js 1)
       (bnd (take_js 1) (\<lambda>c.
        seq (set_executor cmd (\<lambda>x. x\<lparr>ex_name := to_string c\<rparr>))
          (seq (blockComment_loop E n)
          (seq (take_js 2)
          (bnd (gets index) (\<lambda>e.
             set_executor cmd (\<lambda>x. x\<lparr>ex_end := Some (int e - 1)\<rparr>))))))))))) p"
| "blockComment_loop E 0 p = (throw OutOfFuel) p"
| "blockComment_loop E (Suc n) p =
     (bnd testBlockCommentEnd (\<lambda>stop.
       if stop then ret ()
       else
         bnd testBlockComment (\<lambda>b.
         seq (if b then parseBlockComment E n else ret ())
           (seq (take_js 1)
             (blockComment_loop E n))))) p"

definition testComment :: "bool action" where
  "testComment p = (testSymbol Rx_comment 0) p"

definition testCommentEnd :: "bool action" where
  "testCommentEnd p =
     (if \<not> verifyCommandNames p \<and> index p \<ge> length (p_text p) then Inr (True, p)
      else if verifyCommandNames p \<and> endOfText p
        then Inl (SlashCommandParserError UnclosedComment (Some (int (index p))))
      else testSymbol (Lit ''|'') 0 p)"

definition parseComment :: "env \<Rightarrow> nat \<Rightarrow> unit action" where
  "parseComment E n p =
     (bnd (gets index) (\<lambda>i.
     bnd (alloc_executor
            ((new_executor Executor (int i + 1))\<lparr>ex_command := commands E ''/''\<rparr>)) (\<lambda>cmd.
     seq (index_command cmd)
       (seq (take_js 1)
       (bnd (take_js 1) (\<lambda>c.
        seq (set_executor cmd (\<lambda>x. x\<lparr>ex_name := to_string c\<rparr>))
          (seq (take_until testCommentEnd n [])
          (bnd (gets index) (\<lambda>e.
             set_executor cmd (\<lambda>x. x\<lparr>ex_end := Some (int e)\<rparr>)))))))))) p"

subsection \<open>The parser-flag pseudo-command\<close>

definition testParserFlag :: "bool action" where
  "testParserFlag p = (testSymbol (Lit ''/parser-flag '') 0) p"

text \<open>\<^verbatim>\<open>this.flags[PARSER_FLAG[key]] = state\<close> for a key of \<^verbatim>\<open>PARSER_FLAG\<close>.\<close>

definition set_flag :: "string \<Rightarrow> bool \<Rightarrow> flags \<Rightarrow> flags" where
  "set_flag key state f =
     (if key = ''STRICT_ESCAPING'' then f\<lparr>STRICT_ESCAPING := state\<rparr>
      else if key = ''REPLACE_GETVAR'' then f\<lparr>REPLACE_GETVAR := state\<rparr>
      else f)"

text \<open>\<^verbatim>\<open>const [flag, state] = cmd.unnamedArgumentList\<close> and the assignment to the flag;
  \<^verbatim>\<open>flag.value\<close> of a missing first element is a type error.\<close>

definition apply_flag :: "env \<Rightarrow> unnamedAssignment list \<Rightarrow> unit action" where
  "apply_flag E args p =
     (case args of
        [] \<Rightarrow> throw TypeError
      | flag # rest \<Rightarrow>
          let key = val_toString E (ua_value flag);
              state = (case rest of [] \<Rightarrow> ''on'' | st # x \<Rightarrow> val_toString E (ua_value st))
          in if key \<in> set [''STRICT_ESCAPING'', ''REPLACE_GETVAR'']
             then modify (\<lambda>p. p\<lparr>flags := set_flag key (isTrueBoolean E state) (flags p)\<rparr>)
             else ret ()) p"

definition parseParserFlag :: "env \<Rightarrow> nat action \<Rightarrow> nat \<Rightarrow> unit action" where
  "parseParserFlag E parseClosure n p =
     (bnd (gets index) (\<lambda>i.
     bnd (alloc_executor
            ((new_executor Executor (int i + 1))
               \<lparr>ex_name := ''parser-flag'', ex_command := commands E ''parser-flag''\<rparr>)) (\<lambda>cmd.
     seq (index_command cmd)
       (seq (take_js 13)
       (bnd (gets index) (\<lambda>s.
        seq (set_executor cmd (\<lambda>x. x\<lparr>startNamedArgs := Some (- 1),
               endNamedArgs := Some (- 1), startUnnamedArgs := Some (int s)\<rparr>))
          (bnd (parseUnnamedArgument E parseClosure n True None False) (\<lambda>args.
           bnd (gets index) (\<lambda>e.
           seq (set_executor cmd (\<lambda>x. x\<lparr>unnamedArgumentList := args,
                  endUnnamedArgs := Some (int e)\<rparr>))
             (seq (apply_flag E args)
             (bnd (gets index) (\<lambda>e2.
                set_executor cmd (\<lambda>x. x\<lparr>ex_end := Some (int e2)\<rparr>))))))))))))) p"

subsection \<open>Run shorthand, breakpoint and break\<close>

definition testRunShorthand :: "bool action" where
  "testRunShorthand p =
     (bnd (testSymbol (Lit ''/:'') 0) (\<lambda>b.
       if b then bnd (testSymbol (Lit '':}'') 1) (\<lambda>b2. ret (\<not> b2)) else ret False)) p"

definition parseRunShorthand :: "env \<Rightarrow> nat action \<Rightarrow> nat \<Rightarrow> nat action" where
  "parseRunShorthand E parseClosure n p =
     (bnd (gets index) (\<lambda>i.
     bnd (alloc_executor
            ((new_executor Executor (int i + 2))
               \<lparr>ex_name := '':'', ex_command := commands E ''run''\<rparr>)) (\<lambda>cmd.
     seq (index_command cmd)
       (seq (take_js 2)
       (bnd testQuotedValue (\<lambda>b.
        bnd (if b then parseQuotedValue E n else parseValue E n) (\<lambda>v.
        seq (set_executor cmd
               (\<lambda>x. x\<lparr>unnamedArgumentList := [with_value new_unnamed (Str v)]\<rparr>))
          (seq (modify discardWhitespace)
          (bnd (gets index) (\<lambda>s.
           seq (set_executor cmd (\<lambda>x. x\<lparr>startNamedArgs := Some (int s)\<rparr>))
             (seq (namedArgument_loop E parseClosure
                     (\<lambda>arg. set_executor cmd
                        (\<lambda>x. x\<lparr>namedArgumentList := namedArgumentList x @ [arg]\<rparr>)) n)
             (bnd (gets index) (\<lambda>e.
              seq (set_executor cmd (\<lambda>x. x\<lparr>endNamedArgs := Some (int e)\<rparr>))
                (seq (modify discardWhitespace)
                (bnd testCommandEnd (\<lambda>atEnd.
                   if atEnd then
                     bnd (gets index) (\<lambda>e2.
                     seq (set_executor cmd (\<lambda>x. x\<lparr>ex_end := Some (int e2)\<rparr>))
                       (ret cmd))
                   else throw_here UnexpectedCommandEnd)))))))))))))))) p"

definition testBreakPoint :: "bool action" where
  "testBreakPoint p = (testSymbol Rx_breakpoint 0) p"

definition parseBreakPoint :: "env \<Rightarrow> nat action" where
  "parseBreakPoint E p =
     (bnd (gets index) (\<lambda>i.
     bnd (alloc_executor
            ((new_executor BreakPoint (int i + 1))
               \<lparr>ex_name := ''breakpoint'', ex_command := commands E ''breakpoint''\<rparr>)) (\<lambda>cmd.
     seq (take_js 11)
       (bnd (gets index) (\<lambda>e.
        seq (set_executor cmd (\<lambda>x. x\<lparr>ex_end := Some (int e)\<rparr>))
          (seq (index_command cmd)
            (ret cmd))))))) p"

definition testBreak :: "bool action" where
  "testBreak p = (testSymbol Rx_break 0) p"

definition parseBreak :: "env \<Rightarrow> nat action \<Rightarrow> nat \<Rightarrow> nat action" where
  "parseBreak E parseClosure n p =
     (bnd (gets index) (\<lambda>i.
     bnd (alloc_executor
            ((new_executor Break (int i + 1))
               \<lparr>ex_name := ''break'', ex_command := commands E ''break''\<rparr>)) (\<lambda>cmd.
     seq (take_js 6)
       (seq (modify discardWhitespace)
       (bnd testCommandEnd (\<lambda>atEnd.
        bnd (if \<not> atEnd then parseUnnamedArgument E parseClosure n False None False
             else ret []) (\<lambda>args.
        bnd (gets index) (\<lambda>e.
        seq (set_executor cmd
               (\<lambda>x. x\<lparr>unnamedArgumentList := unnamedArgumentList x @ args,
                       ex_end := Some (int e)\<rparr>))
          (seq (index_command cmd)
            (ret cmd)))))))))) p"

subsection \<open>The generic command\<close>

definition testCommand :: "bool action" where
  "testCommand p = (testSymbol (Lit ''/'') 0) p"

text \<open>\<^verbatim>\<open>/\s(\s*)$/s.exec(this.behind)?.[1]?.length ?? 0\<close>\<close>

definition trailing_space_group :: "string \<Rightarrow> nat" where
  "trailing_space_group t = length (takeWhile is_space (rev t)) - 1"

text \<open>The destination names of \<^verbatim>\<open>/import\<close>: \<^verbatim>\<open>a as b\<close> gives \<^verbatim>\<open>b\<close>.\<close>

fun import_names :: "env \<Rightarrow> val list \<Rightarrow> val list" where
  "import_names E (src # x # dst # rest) =
     (if val_toString E x = ''as'' then dst # import_names E rest
      else src # import_names E (x # dst # rest))"
| "import_names E (src # rest) = src # import_names E rest"
| "import_names E [] = []"

primrec push_variableNames :: "val list \<Rightarrow> unit action" where
  "push_variableNames [] p = (ret ()) p"
| "push_variableNames (x # xs) p = (seq (push_variableName x) (push_variableNames xs)) p"

text \<open>\<^verbatim>\<open>/let\<close> and \<^verbatim>\<open>/import\<close> register their destination names in the current scope.\<close>

definition register_variables :: "env \<Rightarrow> nat \<Rightarrow> unit action" where
  "register_variables E cmd p =
     (bnd (gets (\<lambda>p. executors p ! cmd)) (\<lambda>x.
       if ex_name x = ''let'' then
         (case find (\<lambda>a. na_name a = ''key'') (namedArgumentList x) of
            Some keyArg \<Rightarrow>
              (case na_value keyArg of
                 None \<Rightarrow> throw TypeError
               | Some v \<Rightarrow> push_variableName (Str (val_toString E v)))
          | None \<Rightarrow>
              (case unnamedArgumentList x of
                 [] \<Rightarrow> ret ()
               | a # rest \<Rightarrow>
                   (case ua_value a of
                      Str v \<Rightarrow> push_variableName (Str v)
                    | Closure c \<Rightarrow> ret ())))
       else if ex_name x = ''import''
         then push_variableNames (import_names E (map ua_value (unnamedArgumentList x)))
       else ret ())) p"

text \<open>The arguments that \<^verbatim>\<open>parseCommand\<close> passes to \<^verbatim>\<open>parseUnnamedArgument\<close>: split, split
  count and raw quotes.\<close>

definition split_of :: "executor \<Rightarrow> bool" where
  "split_of x = (case ex_command x of None \<Rightarrow> False
                 | Some c \<Rightarrow> unnamedArgumentList_length c \<noteq> 0 \<and> splitUnnamedArgument c)"

definition splitCount_of :: "executor \<Rightarrow> nat option" where
  "splitCount_of x = (case ex_command x of None \<Rightarrow> None | Some c \<Rightarrow> splitUnnamedArgumentCount c)"

definition rawQuotes_of :: "env \<Rightarrow> executor \<Rightarrow> bool" where
  "rawQuotes_of E x =
     (let rawQuotesArg = find (\<lambda>a. na_name a = ''raw'') (namedArgumentList x);
          commandRaw = (case ex_command x of None \<Rightarrow> False | Some c \<Rightarrow> rawQuotes c)
      in if commandRaw \<and> rawQuotesArg \<noteq> None
         then \<not> isFalseBoolean E (map_option (val_toString E) (na_value (the rawQuotesArg)))
         else commandRaw)"

definition parse_unnamed_of_command :: "env \<Rightarrow> nat action \<Rightarrow> nat \<Rightarrow> nat \<Rightarrow> unit action" where
  "parse_unnamed_of_command E parseClosure n cmd p =
     (bnd (gets (\<lambda>p. executors p ! cmd)) (\<lambda>x.
     bnd (parseUnnamedArgument E parseClosure n (split_of x) (splitCount_of x)
            (rawQuotes_of E x)) (\<lambda>args.
     bnd (gets index) (\<lambda>e.
     seq (set_executor cmd (\<lambda>x. x\<lparr>unnamedArgumentList := args,
                                   endUnnamedArgs := Some (int e)\<rparr>))
       (register_variables E cmd))))) p"

text \<open>The name of the command: \<^verbatim>\<open>while (!/\s/.test(this.char) && !this.testCommandEnd())
  cmd.name += this.take();\<close>\<close>

definition command_name :: "nat \<Rightarrow> string action" where
  "command_name n p =
     (take_until (orElse (gets (\<lambda>q. test_space (this_char q))) testCommandEnd) n []) p"

definition parseCommand :: "env \<Rightarrow> nat action \<Rightarrow> nat \<Rightarrow> nat action" where
  "parseCommand E parseClosure n p =
     (bnd (gets index) (\<lambda>i.
     bnd (gets flags) (\<lambda>current.
     bnd (alloc_executor
            ((new_executor Executor (int i + 1))\<lparr>parserFlags := Some current\<rparr>)) (\<lambda>cmd.
     seq (index_command cmd)
       (seq (take_js 1)
       (bnd (command_name n) (\<lambda>name.
        seq (set_executor cmd (\<lambda>x. x\<lparr>ex_name := ex_name x @ name\<rparr>))
          (seq (modify discardWhitespace)
          (bnd (gets verifyCommandNames) (\<lambda>verify.
           bnd (gets index) (\<lambda>s.
             if verify \<and> commands E name = None
             then throw (SlashCommandParserError UnknownCommand
                           (Some (int s - int (length name))))
             else
               seq (set_executor cmd
                      (\<lambda>x. x\<lparr>ex_command := commands E name,
                              startNamedArgs := Some (int s),
                              endNamedArgs := Some (int s)\<rparr>))
                 (seq (namedArgument_loop E parseClosure
                         (\<lambda>arg. bnd (gets index) (\<lambda>e.
                            set_executor cmd
                              (\<lambda>x. x\<lparr>namedArgumentList := namedArgumentList x @ [arg],
                                      endNamedArgs := Some (int e)\<rparr>))) n)
                 (seq (modify discardWhitespace)
                 (bnd (gets index) (\<lambda>u.
                  bnd (gets behind) (\<lambda>consumed.
                  seq (set_executor cmd
                         (\<lambda>x. x\<lparr>startUnnamedArgs :=
                                   Some (int u - int (trailing_space_group consumed)),
                                 endUnnamedArgs := Some (int u)\<rparr>))
                    (bnd testCommandEnd (\<lambda>atEnd.
                     seq (if \<not> atEnd then parse_unnamed_of_command E parseClosure n cmd
                          else ret ())
                       (bnd testCommandEnd (\<lambda>atEnd2.
                          if atEnd2 then
                            bnd (gets index) (\<lambda>e.
                            seq (set_executor cmd (\<lambda>x. x\<lparr>ex_end := Some (int e)\<rparr>))
                              (ret cmd))
                          else throw_here UnexpectedCommandEnd)))))))))))))))))))) p"

subsection \<open>Closures\<close>

definition push_executor :: "nat \<Rightarrow> nat \<Rightarrow> unit action" where
  "push_executor cl cmd p =
     (modify (update_closure cl (\<lambda>x. x\<lparr>executorList := executorList x @ [cmd]\<rparr>))) p"

text \<open>One statement of the closure loop, in the source's order of tests. The result is
  the value of \<^verbatim>\<open>injectPipe\<close> after it.\<close>

definition statement :: "env \<Rightarrow> nat action \<Rightarrow> nat \<Rightarrow> nat \<Rightarrow> bool \<Rightarrow> bool action" where
  "statement E parseClosure n cl inject p =
     (bnd testBlockComment (\<lambda>b1.
       if b1 then seq (parseBlockComment E n) (ret inject) else
     bnd testComment (\<lambda>b2.
       if b2 then seq (parseComment E n) (ret inject) else
     bnd testParserFlag (\<lambda>b3.
       if b3 then seq (parseParserFlag E parseClosure n) (ret inject) else
     bnd testRunShorthand (\<lambda>b4.
       if b4 then bnd (parseRunShorthand E parseClosure n) (\<lambda>cmd.
                  seq (push_executor cl cmd) (ret True)) else
     bnd testBreakPoint (\<lambda>b5.
       if b5 then bnd (parseBreakPoint E) (\<lambda>bp.
                  bnd (gets debugController) (\<lambda>d.
                  seq (if d \<noteq> None then push_executor cl bp else ret ()) (ret inject))) else
     bnd testBreak (\<lambda>b6.
       if b6 then bnd (parseBreak E parseClosure n) (\<lambda>b.
                  seq (push_executor cl b) (ret inject)) else
     bnd testCommand (\<lambda>b7.
       if b7 then bnd (parseCommand E parseClosure n) (\<lambda>cmd.
                  seq (set_executor cmd (\<lambda>x. x\<lparr>injectPipe := Some inject\<rparr>))
                    (seq (push_executor cl cmd) (ret True)))
       else seq (take_until testCommandEnd n []) (ret inject))))))))) p"

text \<open>Between statements: the first pipe marks the end of the command, a second pipe
  indicates no pipe injection for the next command.\<close>

definition pipes :: "bool \<Rightarrow> bool action" where
  "pipes inject p =
     (seq (modify discardWhitespace)
       (bnd (testSymbol (Lit ''|'') 0) (\<lambda>b.
        bnd (if b then
               seq (take_js 1)
                 (bnd (testSymbol (Lit ''|'') 0) (\<lambda>b2.
                    if b2 then seq (take_js 1) (ret False) else ret inject))
             else ret inject) (\<lambda>inject1.
        seq (modify discardWhitespace)
          (ret inject1))))) p"

fun closure_loop :: "env \<Rightarrow> nat action \<Rightarrow> nat \<Rightarrow> nat \<Rightarrow> bool \<Rightarrow> unit action" where
  "closure_loop E parseClosure 0 cl inject p = (throw OutOfFuel) p"
| "closure_loop E parseClosure (Suc n) cl inject p =
     (bnd testClosureEnd (\<lambda>stop.
       if stop then ret ()
       else
         bnd (statement E parseClosure n cl inject) (\<lambda>inject1.
         bnd (pipes inject1)
           (closure_loop E parseClosure n cl)))) p"

text \<open>\<^verbatim>\<open>new SlashCommandClosure(this.scope)\<close> makes the closure and its scope, a child of
  the current one.\<close>

definition new_closure :: "nat action" where
  "new_closure p =
     Inr (length (closures p),
      p\<lparr>scopes := scopes p @ [\<lparr>variableNames = [], sc_parent = scope p\<rparr>],
        closures := closures p @
          [\<lparr>cl_scope = length (scopes p), argumentList = [], executorList = [],
            rawText = None, executeNow = False, cl_parserContext = parserContext p,
            fullText = p_text p, cl_abortController = abortController p,
            cl_debugController = debugController p\<rparr>]\<rparr>)"

text \<open>The local variables of \<^verbatim>\<open>parseClosure\<close>: the position of its entry in the closure
  index, \<^verbatim>\<open>textStart\<close>, the closure and \<^verbatim>\<open>oldClosure\<close>.\<close>

record closure_locals =
  l_entry :: nat
  l_textStart :: nat
  l_closure :: nat
  l_oldClosure :: "nat option"

text \<open>The beginning of \<^verbatim>\<open>parseClosure\<close>, through \<^verbatim>\<open>this.closure = closure\<close>.\<close>

definition open_closure :: "bool \<Rightarrow> closure_locals action" where
  "open_closure isRoot p =
     (bnd (gets (\<lambda>p. length (closureIndex p))) (\<lambda>entry.
      bnd (gets index) (\<lambda>i.
      seq (modify (\<lambda>p. p\<lparr>closureIndex := closureIndex p @ [(int i + 1, None)]\<rparr>))
        (seq (if \<not> isRoot then seq (take_js 2) (ret ()) else ret ())
        (bnd (gets index) (\<lambda>textStart.
         bnd new_closure (\<lambda>cl.
         bnd (gets closure) (\<lambda>oldClosure.
         seq (modify (\<lambda>p. p\<lparr>scope := Some (cl_scope (closures p ! cl)),
                               closure := Some cl\<rparr>))
           (ret \<lparr>l_entry = entry, l_textStart = textStart, l_closure = cl,
                 l_oldClosure = oldClosure\<rparr>))))))))) p"

text \<open>The end of \<^verbatim>\<open>parseClosure\<close>: first from \<^verbatim>\<open>closure.rawText = ...\<close> through the
  immediate-invocation suffix, then the last four statements.\<close>

definition finish_closure :: "bool \<Rightarrow> closure_locals \<Rightarrow> unit action" where
  "finish_closure isRoot l p =
     (bnd (gets (\<lambda>p. take (index p - l_textStart l) (drop (l_textStart l) (p_text p)))) (\<lambda>raw.
      seq (modify (update_closure (l_closure l) (\<lambda>x. x\<lparr>rawText := Some raw\<rparr>)))
        (seq (if \<not> isRoot then seq (take_js 2) (ret ()) else ret ())
        (bnd (testSymbol (Lit ''()'') 0) (\<lambda>b.
           if b then
             seq (take_js 2)
               (modify (update_closure (l_closure l) (\<lambda>x. x\<lparr>executeNow := True\<rparr>)))
           else ret ()))))) p"

definition leave_closure :: "closure_locals \<Rightarrow> nat action" where
  "leave_closure l p =
     Inr (l_closure l,
       p\<lparr>closureIndex := (closureIndex p)
            [l_entry l := (fst (closureIndex p ! l_entry l), Some (int (index p) - 1))],
         scope := sc_parent (scopes p ! cl_scope (closures p ! l_closure l)),
         closure := (case l_oldClosure l of None \<Rightarrow> Some (l_closure l) | Some c \<Rightarrow> Some c)\<rparr>)"

text \<open>What \<^verbatim>\<open>parseClosure\<close> does between its beginning and its last statements.\<close>

definition closure_content :: "env \<Rightarrow> nat action \<Rightarrow> nat \<Rightarrow> bool \<Rightarrow> closure_locals \<Rightarrow> unit action" where
  "closure_content E parseClosure n isRoot l p =
     (seq (modify discardWhitespace)
       (seq (namedArgument_loop E parseClosure
               (\<lambda>arg. seq (modify (update_closure (l_closure l)
                                     (\<lambda>x. x\<lparr>argumentList := argumentList x @ [arg]\<rparr>)))
                         (push_variableName (Str (na_name arg))))
               n)
       (seq (closure_loop E parseClosure n (l_closure l) True)
         (finish_closure isRoot l)))) p"

definition parseClosure_body :: "env \<Rightarrow> nat action \<Rightarrow> nat \<Rightarrow> bool \<Rightarrow> nat action" where
  "parseClosure_body E parseClosure n isRoot p =
     (bnd (open_closure isRoot) (\<lambda>l.
      seq (closure_content E parseClosure n isRoot l)
        (leave_closure l))) p"

primrec parseClosure :: "env \<Rightarrow> nat \<Rightarrow> bool \<Rightarrow> nat action" where
  "parseClosure E 0 isRoot p = throw OutOfFuel p"
| "parseClosure E (Suc n) isRoot p = parseClosure_body E (parseClosure E n False) n isRoot p"

subsection \<open>The entry point\<close>

text \<open>\<^verbatim>\<open>flags?.[key] ?? power_user.stscript.parser.flags[key] ?? false\<close>\<close>

definition resolve_flag :: "bool option \<Rightarrow> bool option \<Rightarrow> bool" where
  "resolve_flag given ambient =
     (case given of Some b \<Rightarrow> b
      | None \<Rightarrow> (case ambient of Some b \<Rightarrow> b | None \<Rightarrow> False))"

text \<open>The assignments of \<^verbatim>\<open>parse\<close> before it calls \<^verbatim>\<open>parseClosure(true)\<close>.\<close>

definition init_parse ::
  "env \<Rightarrow> string \<Rightarrow> bool \<Rightarrow> (bool option \<times> bool option) option \<Rightarrow> nat option
     \<Rightarrow> nat option \<Rightarrow> parser \<Rightarrow> parser" where
  "init_parse E t verify given abortC debugC p =
     p\<lparr>verifyCommandNames := verify,
       flags := \<lparr>STRICT_ESCAPING =
                   resolve_flag (case given of None \<Rightarrow> None | Some f \<Rightarrow> fst f)
                     (fst (power_user_flags E)),
                 REPLACE_GETVAR =
                   resolve_flag (case given of None \<Rightarrow> None | Some f \<Rightarrow> snd f)
                     (snd (power_user_flags E))\<rparr>,
       abortController := abortC, debugController := debugC,
       p_text := t, index := 0, scope := None,
       closureIndex := [], commandIndex := [], scopeIndex := [], macroIndex := [],
       parserContext := uuidv4 E (uuids p), uuids := uuids p + 1\<rparr>"

definition parse ::
  "env \<Rightarrow> nat \<Rightarrow> string \<Rightarrow> bool \<Rightarrow> (bool option \<times> bool option) option \<Rightarrow> nat option
     \<Rightarrow> nat option \<Rightarrow> nat action" where
  "parse E n t verify given abortC debugC p =
     parseClosure E n True (init_parse E t verify given abortC debugC p)"

text \<open>A parser instance as its constructor leaves it.\<close>

definition new_parser :: parser where
  "new_parser =
     \<lparr>verifyCommandNames = True, p_text = [], index = 0, abortController = None,
      debugController = None, scope = None, closure = None,
      flags = \<lparr>STRICT_ESCAPING = False, REPLACE_GETVAR = False\<rparr>,
      jumpedEscapeSequence = False, closureIndex = [], macroIndex = [], commandIndex = [],
      scopeIndex = [], parserContext = [], scopes = [], closures = [], executors = [],
      uuids = 0\<rparr>"

text \<open>The equations of the functions whose recursion is not on a constructor are applied
  on demand only.\<close>

declare discardWhitespace.simps [simp del]
declare macro_end_loop.simps [simp del]
declare nested_scan.simps [simp del]
declare indexMacros_loop.simps [simp del]
declare replaceGetvar_scan.simps [simp del]

subsection \<open>An example environment and readers of a result\<close>

definition example_command :: "nat \<Rightarrow> bool \<Rightarrow> nat option \<Rightarrow> command" where
  "example_command arity split cap =
     \<lparr>unnamedArgumentList_length = arity, splitUnnamedArgument = split,
      splitUnnamedArgumentCount = cap, rawQuotes = False\<rparr>"

text \<open>A registry: \<^verbatim>\<open>echo\<close> takes one unnamed argument; \<^verbatim>\<open>let\<close> takes two and splits
  them with split count 1; \<^verbatim>\<open>import\<close> splits; \<^verbatim>\<open>pair\<close> has arity 2 with splitting;
  \<^verbatim>\<open>capped\<close> splits with split count 1; \<^verbatim>\<open>cmd1\<close> and \<^verbatim>\<open>cmd2\<close> take nothing; the last
  five are the entries that the constructor of the parser registers itself.\<close>

definition example_commands :: "string \<Rightarrow> command option" where
  "example_commands name =
     (if name = ''echo'' then Some (example_command 1 False None)
      else if name = ''let'' then Some (example_command 2 True (Some 1))
      else if name = ''import'' then Some (example_command 1 True None)
      else if name = ''pair'' then Some (example_command 2 True None)
      else if name = ''capped'' then Some (example_command 2 True (Some 1))
      else if name = ''cmd1'' then Some (example_command 0 False None)
      else if name = ''cmd2'' then Some (example_command 0 False None)
      else if name = ''parser-flag'' then Some (example_command 2 True None)
      else if name = ''/'' then Some (example_command 1 False None)
      else if name = ''#'' then Some (example_command 1 False None)
      else if name = ''breakpoint'' then Some (example_command 0 False None)
      else if name = ''break'' then Some (example_command 1 False None)
      else None)"

text \<open>An id generator whose \<open>k\<close>-th id ends in \<open>k\<close> ones.\<close>

definition example_uuid :: "nat \<Rightarrow> string" where
  "example_uuid k =
     ''00000000-0000-4000-8000-'' @ replicate (12 - k) (CHR ''0'') @ replicate k (CHR ''1'')"

definition example_env :: env where
  "example_env =
     \<lparr>commands = example_commands, power_user_flags = (None, None),
      experimental_macro_engine = False, uuidv4 = example_uuid,
      isTrueBoolean = (\<lambda>v. toLowerCase (trim v) \<in> set [''on'', ''true'', ''1'']),
      isFalseBoolean = (\<lambda>v. case v of None \<Rightarrow> False
                          | Some x \<Rightarrow> toLowerCase (trim x) \<in> set [''off'', ''false'', ''0'']),
      closureToString = ''[Closure]'',
      macroIdentifier = (\<lambda>v. takeWhile (\<lambda>c. c \<noteq> CHR '':'') v)\<rparr>"

text \<open>The flags argument of \<^verbatim>\<open>parse\<close> that sets strict escaping, and the one that sets
  the rewrite of the legacy macros.\<close>

definition strict_escaping :: "(bool option \<times> bool option) option" where
  "strict_escaping = Some (Some True, None)"

definition replace_getvar :: "(bool option \<times> bool option) option" where
  "replace_getvar = Some (None, Some True)"

text \<open>The error of a failed parse.\<close>

definition failure :: "error + 'a \<Rightarrow> error option" where
  "failure r = (case r of Inl e \<Rightarrow> Some e | Inr x \<Rightarrow> None)"

text \<open>The Executors of the returned closure, in order: name, values of the unnamed
  arguments, pipe injection.\<close>

definition statements :: "nat result \<Rightarrow> (string \<times> val list \<times> bool option) list option" where
  "statements r =
     (case r of
        Inl e \<Rightarrow> None
      | Inr (c, p) \<Rightarrow>
          Some (map (\<lambda>i. (ex_name (executors p ! i),
                          map ua_value (unnamedArgumentList (executors p ! i)),
                          injectPipe (executors p ! i)))
                    (executorList (closures p ! c))))"

text \<open>The resolved command definitions and the flag snapshots of the Executors of the
  returned closure.\<close>

definition resolved :: "nat result \<Rightarrow> (string \<times> command option) list option" where
  "resolved r =
     (case r of
        Inl e \<Rightarrow> None
      | Inr (c, p) \<Rightarrow>
          Some (map (\<lambda>i. (ex_name (executors p ! i), ex_command (executors p ! i)))
                    (executorList (closures p ! c))))"

definition snapshots :: "nat result \<Rightarrow> (string \<times> flags option) list option" where
  "snapshots r =
     (case r of
        Inl e \<Rightarrow> None
      | Inr (c, p) \<Rightarrow>
          Some (map (\<lambda>i. (ex_name (executors p ! i), parserFlags (executors p ! i)))
                    (executorList (closures p ! c))))"

text \<open>The variable names of the scope of the returned closure.\<close>

definition scope_names :: "nat result \<Rightarrow> val list option" where
  "scope_names r =
     (case r of
        Inl e \<Rightarrow> None
      | Inr (c, p) \<Rightarrow> Some (variableNames (scopes p ! cl_scope (closures p ! c))))"

text \<open>The closure-span index after a parse.\<close>

definition spans :: "nat result \<Rightarrow> (int \<times> int option) list option" where
  "spans r = (case r of Inl e \<Rightarrow> None | Inr (c, p) \<Rightarrow> Some (closureIndex p))"

text \<open>A fresh parser inside the root closure of the text \<open>t\<close>, before its first statement.\<close>

definition inside_root ::
  "env \<Rightarrow> string \<Rightarrow> bool \<Rightarrow> (bool option \<times> bool option) option \<Rightarrow> parser" where
  "inside_root E t verify given =
     (case open_closure True (init_parse E t verify given None None new_parser) of
        Inl e \<Rightarrow> new_parser
      | Inr (l, p) \<Rightarrow> p)"

text \<open>The values and the quoted marks that \<^verbatim>\<open>parseUnnamedArgument\<close> has gathered at the end
  of its loop.\<close>

definition gathered :: "ua_state result \<Rightarrow> (val list \<times> bool list) option" where
  "gathered r =
     (case r of
        Inl e \<Rightarrow> None
      | Inr (u, p) \<Rightarrow> Some (map ua_value (u_listValues u), u_listQuoted u))"

definition values_of :: "unnamedAssignment list result \<Rightarrow> val list option" where
  "values_of r = (case r of Inl e \<Rightarrow> None | Inr (args, p) \<Rightarrow> Some (map ua_value args))"

text \<open>The variable names of the scopes of all closures of a parse, in the order in which
  the closures were made.\<close>

definition all_scope_names :: "nat result \<Rightarrow> val list list option" where
  "all_scope_names r =
     (case r of
        Inl e \<Rightarrow> None
      | Inr (c, p) \<Rightarrow> Some (map (\<lambda>x. variableNames (scopes p ! cl_scope x)) (closures p)))"

text \<open>A second parse by the parser instance that an earlier parse has left.\<close>

definition parse_again ::
  "env \<Rightarrow> nat \<Rightarrow> string \<Rightarrow> bool \<Rightarrow> (bool option \<times> bool option) option \<Rightarrow> nat result
     \<Rightarrow> nat result" where
  "parse_again E n t verify given r =
     (case r of Inl e \<Rightarrow> Inl e | Inr (c, p) \<Rightarrow> parse E n t verify given None None p)"

section \<open>Frame conditions\<close>

text \<open>A complete entry of the closure index that spans at least the two markers of a
  closure.\<close>

definition span_ok :: "int \<times> int option \<Rightarrow> bool" where
  "span_ok = (\<lambda>(s, e). case e of None \<Rightarrow> False | Some x \<Rightarrow> s + 2 \<le> x)"

definition flag_text :: string where "flag_text = ''/parser-flag ''"

text \<open>A \<^verbatim>\<open>/parser-flag\<close> statement can still begin at the position of \<open>p\<close> or after it (one
  before it, where the scanner looks after an escape).\<close>

definition flag_ahead :: "parser \<Rightarrow> bool" where
  "flag_ahead p \<longleftrightarrow> sublist flag_text (drop (index p - 1) (p_text p))"

text \<open>A snapshot that is absent or holds the flags \<open>f\<close>.\<close>

definition carries :: "flags \<Rightarrow> flags option \<Rightarrow> bool" where
  "carries f s \<longleftrightarrow> s = None \<or> s = Some f"

text \<open>What every parsing method leaves alone, from the instance \<open>p\<close> before the call to the
  instance \<open>q\<close> after it: the text and the settings stay, the position does not go back, the
  current scope is restored and so is the current closure if there was one, the scopes,
  closures and Executors made before keep their parent, their scope and their flag snapshot,
  and the closure index grows by one complete entry for each closure made.\<close>

definition frame0 :: "parser \<Rightarrow> parser \<Rightarrow> bool" where
  "frame0 p q \<longleftrightarrow>
     p_text q = p_text p \<and> verifyCommandNames q = verifyCommandNames p
     \<and> debugController q = debugController p
     \<and> index p \<le> index q
     \<and> scope q = scope p
     \<and> (closure p = None \<or> closure q = closure p)
     \<and> prefix (map sc_parent (scopes p)) (map sc_parent (scopes q))
     \<and> prefix (map cl_scope (closures p)) (map cl_scope (closures q))
     \<and> prefix (map parserFlags (executors p)) (map parserFlags (executors q))
     \<and> (\<exists>ys. closureIndex q = closureIndex p @ ys \<and> list_all span_ok ys
              \<and> length ys + length (closures p) = length (closures q))"

text \<open>Moreover, unless a \<^verbatim>\<open>/parser-flag\<close> statement is still ahead, the flags stay and every
  Executor made in between carries no snapshot or a snapshot of these flags.\<close>

definition frame :: "parser \<Rightarrow> parser \<Rightarrow> bool" where
  "frame p q \<longleftrightarrow>
     p_text q = p_text p \<and> verifyCommandNames q = verifyCommandNames p
     \<and> debugController q = debugController p
     \<and> index p \<le> index q
     \<and> scope q = scope p
     \<and> (closure p = None \<or> closure q = closure p)
     \<and> prefix (map sc_parent (scopes p)) (map sc_parent (scopes q))
     \<and> prefix (map cl_scope (closures p)) (map cl_scope (closures q))
     \<and> prefix (map parserFlags (executors p)) (map parserFlags (executors q))
     \<and> (\<exists>ys. closureIndex q = closureIndex p @ ys \<and> list_all span_ok ys
              \<and> length ys + length (closures p) = length (closures q))
     \<and> (flag_ahead p \<or>
          (flags q = flags p
           \<and> list_all (carries (flags p))
                (drop (length (executors p)) (map parserFlags (executors q)))))"

text \<open>An action whose every normal return is in the relation \<open>R\<close>.\<close>

definition framed_on :: "(parser \<Rightarrow> parser \<Rightarrow> bool) \<Rightarrow> 'a action \<Rightarrow> bool" where
  "framed_on R m \<longleftrightarrow> (\<forall>p x q. m p = Inr (x, q) \<longrightarrow> R p q)"

abbreviation framed :: "'a action \<Rightarrow> bool" where
  "framed \<equiv> framed_on frame"

abbreviation framed0 :: "'a action \<Rightarrow> bool" where
  "framed0 \<equiv> framed_on frame0"

section \<open>Two parses compared\<close>

text \<open>What a parser state owes to \<^verbatim>\<open>uuidv4\<close>: the context id of the parser, the number of
  ids drawn, and the context id that \<^verbatim>\<open>parseClosure\<close> copies into each closure. Two states
  that are equal once these are erased have the same executors, scopes, closures and index
  entries, with the same offsets, names and values.\<close>

definition forget_closure :: "closure \<Rightarrow> closure" where
  "forget_closure c = c\<lparr>cl_parserContext := []\<rparr>"

definition forget_ids :: "parser \<Rightarrow> parser" where
  "forget_ids p = p\<lparr>parserContext := [], uuids := 0,
                    closures := map forget_closure (closures p)\<rparr>"

text \<open>The rewrite of the legacy getter macros is off, and the text has no flag statement
  that could set it.\<close>

definition plain :: "parser \<Rightarrow> bool" where
  "plain p \<longleftrightarrow> \<not> REPLACE_GETVAR (flags p) \<and> \<not> sublist flag_text (p_text p)"

text \<open>Two results are alike when they are the same error, or the same value with states
  that differ in those ids only; two actions simulate each other when they take such states
  to like results.\<close>

definition alike :: "'a result \<Rightarrow> 'a result \<Rightarrow> bool" where
  "alike r r' \<longleftrightarrow>
     (case r of
        Inl e \<Rightarrow> r' = Inl e
      | Inr (x, q) \<Rightarrow> plain q \<and> (\<exists>q'. r' = Inr (x, q') \<and> forget_ids q = forget_ids q'))"

definition sim :: "'a action \<Rightarrow> 'a action \<Rightarrow> bool" where
  "sim a b \<longleftrightarrow> (\<forall>p p'. plain p \<and> forget_ids p = forget_ids p' \<longrightarrow> alike (a p) (b p'))"

text \<open>The state \<open>p\<close> with another context id, id count and closure store, and a result with
  its state changed.\<close>

definition over :: "string \<Rightarrow> nat \<Rightarrow> closure list \<Rightarrow> parser \<Rightarrow> parser" where
  "over c u cs p = p\<lparr>parserContext := c, uuids := u, closures := cs\<rparr>"

definition on_state :: "(parser \<Rightarrow> parser) \<Rightarrow> 'a result \<Rightarrow> 'a result" where
  "on_state f r = (case r of Inl e \<Rightarrow> Inl e | Inr (x, q) \<Rightarrow> Inr (x, f q))"

section \<open>Example parses\<close>

text \<open>A nested closure parsed inside the root closure.\<close>

definition nested_example :: "nat result" where
  "nested_example =
     parseClosure example_env 100 False (inside_root example_env ''{: /echo a :}'' True None)"

definition span_example :: "nat result" where
  "span_example =
     parse example_env 100 ''/echo {: /echo a :} | /echo {: :}'' True None None None new_parser"

text \<open>A command, and the statements after it with a \<^verbatim>\<open>/parser-flag\<close> among them.\<close>

definition flag_text_example :: string where
  "flag_text_example = ''/echo a | /parser-flag STRICT_ESCAPING on | /echo {: /echo b :}''"

definition flag_example_command :: "nat result" where
  "flag_example_command =
     parseCommand example_env (parseClosure example_env 100 False) 100
       (inside_root example_env flag_text_example True None)"

definition flag_example_rest :: "unit result" where
  "flag_example_rest =
     closure_loop example_env (parseClosure example_env 100 False) 100 0 True
       (snd (projr flag_example_command))"

text \<open>\<^verbatim>\<open>const [flag, state] = cmd.unnamedArgumentList\<close> with \<^verbatim>\<open>flag.value.toString()\<close> and
  \<^verbatim>\<open>isTrueBoolean(state?.value.toString() ?? 'on')\<close>, read from the Executor of a
  \<^verbatim>\<open>/parser-flag\<close> statement.\<close>

definition flag_argument :: "env \<Rightarrow> executor \<Rightarrow> (string \<times> bool) option" where
  "flag_argument E x =
     (case unnamedArgumentList x of
        [] \<Rightarrow> None
      | flag # rest \<Rightarrow>
          Some (val_toString E (ua_value flag),
                isTrueBoolean E (case rest of [] \<Rightarrow> ''on''
                                  | st # xs \<Rightarrow> val_toString E (ua_value st))))"

text \<open>A parse that starts with strict escaping set and switches it off: the first command
  with the separator after it, the \<^verbatim>\<open>/parser-flag\<close> statement, the separator after it, and
  the rest of the closure.\<close>

definition flag_off_example :: string where
  "flag_off_example = ''/echo a | /parser-flag STRICT_ESCAPING off | /echo {: /echo b :}''"

definition flag_example_sep :: "bool result" where
  "flag_example_sep =
     bnd (parseCommand example_env (parseClosure example_env 100 False) 100) (\<lambda>cmd. pipes True)
       (inside_root example_env flag_off_example True strict_escaping)"

definition flag_example_flag :: "unit result" where
  "flag_example_flag =
     parseParserFlag example_env (parseClosure example_env 100 False) 100
       (snd (projr flag_example_sep))"

definition flag_example_sep2 :: "bool result" where
  "flag_example_sep2 = pipes True (snd (projr flag_example_flag))"

definition flag_example_tail :: "unit result" where
  "flag_example_tail =
     closure_loop example_env (parseClosure example_env 100 False) 100 0
       (fst (projr flag_example_sep2)) (snd (projr flag_example_sep2))"

text \<open>A text whose quoted value runs over the end of a closure and swallows the closing
  marker, before a list that is never closed.\<close>

definition quote_to_closure_end :: string where
  "quote_to_closure_end =
     ''/echo {: /echo a='' @ [dquote] @ ''x :} '' @ [dquote] @ '' b=[1,2''"

text \<open>The parser at the unnamed arguments \<^verbatim>\<open>x 5\<close> of a \<^verbatim>\<open>/let\<close>, whose Executor is the
  first of the store.\<close>

definition let_block_state :: parser where
  "let_block_state =
     snd (projr (alloc_executor
       ((new_executor Executor 1)\<lparr>ex_name := ''let'', ex_command := commands example_env ''let''\<rparr>)
       (inside_root example_env ''x 5'' True None)))"

definition let_block_example :: "unit result" where
  "let_block_example =
     parse_unnamed_of_command example_env (parseClosure example_env 100 False) 100 0
       let_block_state"

text \<open>A second id generator, and the example environment with it; a text with a nested
  closure and without getter macros, and a text with one getter macro.\<close>

definition other_uuid :: "nat \<Rightarrow> string" where
  "other_uuid k =
     ''ffffffff-ffff-4fff-8fff-'' @ replicate (12 - k) (CHR ''f'') @ replicate k (CHR ''e'')"

definition other_env :: env where
  "other_env = example_env\<lparr>uuidv4 := other_uuid\<rparr>"

definition plain_text :: string where
  "plain_text = ''/echo {: a=1 /echo {{pipe}} | /let y 5 :} | /import f as g''"

definition getvar_text :: string where
  "getvar_text = ''/let {{getvar::x}} 5''"

section \<open>Properties\<close>

subsection \<open>What the parsing methods leave alone\<close>

lemma frame_refl [simp]: "frame p p"
  by (simp add: frame_def)

lemma frame0_refl [simp]: "frame0 p p"
  by (simp add: frame0_def)

lemma frame_frame0: "frame p q \<Longrightarrow> frame0 p q"
  by (simp add: frame_def frame0_def)

lemma frame_frame0_iff:
  "frame p q \<longleftrightarrow> frame0 p q \<and> (flag_ahead p \<or>
          (flags q = flags p
           \<and> list_all (carries (flags p))
                (drop (length (executors p)) (map parserFlags (executors q)))))"
  by (simp add: frame_def frame0_def)

lemma frame0_trans:
  assumes "frame0 p q" "frame0 q r" shows "frame0 p r"
proof -
  from assms obtain ys zs where
    a: "closureIndex q = closureIndex p @ ys" "list_all span_ok ys"
       "length ys + length (closures p) = length (closures q)"
    and b: "closureIndex r = closureIndex q @ zs" "list_all span_ok zs"
       "length zs + length (closures q) = length (closures r)"
    unfolding frame0_def by blast
  have c: "\<exists>ws. closureIndex r = closureIndex p @ ws \<and> list_all span_ok ws
              \<and> length ws + length (closures p) = length (closures r)"
    using a b by (intro exI[of _ "ys @ zs"]) simp
  have d: "prefix (map sc_parent (scopes p)) (map sc_parent (scopes r))"
     "prefix (map cl_scope (closures p)) (map cl_scope (closures r))"
     "prefix (map parserFlags (executors p)) (map parserFlags (executors r))"
    using assms unfolding frame0_def by (meson prefix_order.trans)+
  have e: "p_text r = p_text p" "verifyCommandNames r = verifyCommandNames p"
     "debugController r = debugController p" "index p \<le> index r" "scope r = scope p"
     "closure p = None \<or> closure r = closure p"
    using assms unfolding frame0_def by auto
  show ?thesis unfolding frame0_def using c d e by blast
qed

lemma flag_ahead_mono:
  assumes "flag_ahead q" "p_text q = p_text p" "index p \<le> index q" shows "flag_ahead p"
proof -
  have "index p - 1 \<le> index q - 1" using assms(3) by simp
  then have "drop (index q - 1) (p_text p)
      = drop (index q - 1 - (index p - 1)) (drop (index p - 1) (p_text p))"
    by (simp only: drop_drop le_add_diff_inverse2)
  then have "sublist (drop (index q - 1) (p_text p)) (drop (index p - 1) (p_text p))"
    by (metis sublist_drop)
  then show ?thesis
    using assms(1,2) unfolding flag_ahead_def by (metis sublist_order.order_trans)
qed

lemma carries_later:
  assumes pre: "prefix (map g eq) (map g er)" and le: "length ep \<le> length eq"
    and a: "list_all P (drop (length ep) (map g eq))"
    and b: "list_all P (drop (length eq) (map g er))"
  shows "list_all P (drop (length ep) (map g er))"
proof -
  from pre obtain zs where z: "map g er = map g eq @ zs" by (auto simp: prefix_def)
  have "drop (length eq) (map g er) = zs" unfolding z by simp
  then have "list_all P zs" using b by simp
  moreover have "drop (length ep) (map g er) = drop (length ep) (map g eq) @ zs"
    unfolding z using le by simp
  ultimately show ?thesis using a by simp
qed

lemma frame_trans:
  assumes "frame p q" "frame q r" shows "frame p r"
proof -
  have 0: "frame0 p r"
    using assms by (blast intro: frame0_trans frame_frame0)
  show ?thesis
  proof (cases "flag_ahead p")
    case True
    then show ?thesis using 0 by (simp add: frame_frame0_iff)
  next
    case False
    then have 1: "flags q = flags p"
      "list_all (carries (flags p)) (drop (length (executors p)) (map parserFlags (executors q)))"
      using assms(1) by (simp_all add: frame_frame0_iff)
    have "\<not> flag_ahead q"
      using False assms(1) by (auto simp: frame_def dest: flag_ahead_mono)
    then have 2: "flags r = flags q"
      "list_all (carries (flags q)) (drop (length (executors q)) (map parserFlags (executors r)))"
      using assms(2) by (simp_all add: frame_frame0_iff)
    have pre: "prefix (map parserFlags (executors q)) (map parserFlags (executors r))"
      "prefix (map parserFlags (executors p)) (map parserFlags (executors q))"
      using assms by (simp_all add: frame_def)
    have le: "length (executors p) \<le> length (executors q)"
      using prefix_length_le [OF pre(2)] by simp
    have "list_all (carries (flags p))
            (drop (length (executors p)) (map parserFlags (executors r)))"
      using carries_later [OF pre(1) le] 1 2 by simp
    then show ?thesis using 0 1 2 by (simp add: frame_frame0_iff)
  qed
qed

lemma framedD: "framed m \<Longrightarrow> m p = Inr (x, q) \<Longrightarrow> frame p q"
  unfolding framed_on_def by blast

lemma framedI: "(\<And>p x q. m p = Inr (x, q) \<Longrightarrow> frame p q) \<Longrightarrow> framed m"
  unfolding framed_on_def by blast

lemma framed0_weaken: "framed m \<Longrightarrow> framed0 m"
  unfolding framed_on_def by (blast intro: frame_frame0)

named_theorems fr

lemma framed_ret [fr]: "framed (ret x)" "framed0 (ret x)"
  by (simp_all add: framed_on_def ret_def)

lemma framed_throw [fr]: "framed_on P (throw e)"
  by (simp add: framed_on_def throw_def)

lemma framed_gets [fr]: "framed (gets f)" "framed0 (gets f)"
  by (auto simp add: framed_on_def gets_def)

lemma bnd_Inr: "bnd m f p = Inr (y, r) \<longleftrightarrow> (\<exists>x q. m p = Inr (x, q) \<and> f x q = Inr (y, r))"
  by (auto simp: bnd_def split: sum.splits)

lemma framed_bnd [fr]:
  assumes "framed m" "\<And>x. framed (f x)" shows "framed (bnd m f)"
proof (rule framedI)
  fix p y r assume "bnd m f p = Inr (y, r)"
  then obtain x q where "m p = Inr (x, q)" "f x q = Inr (y, r)"
    by (auto simp: bnd_Inr)
  then show "frame p r"
    using assms by (blast intro: frame_trans dest: framedD)
qed

lemma framed0_bnd [fr]:
  assumes "framed0 m" "\<And>x. framed0 (f x)" shows "framed0 (bnd m f)"
  unfolding framed_on_def
proof (intro allI impI)
  fix p y r assume "bnd m f p = Inr (y, r)"
  then obtain x q where 1: "m p = Inr (x, q)" and 2: "f x q = Inr (y, r)"
    by (auto simp: bnd_Inr)
  have "frame0 p q" using assms(1) 1 unfolding framed_on_def by blast
  moreover have "frame0 q r" using assms(2) 2 unfolding framed_on_def by blast
  ultimately show "frame0 p r" by (rule frame0_trans)
qed

lemma framed_seq [fr]: "framed m \<Longrightarrow> framed k \<Longrightarrow> framed (seq m k)"
  "framed0 m' \<Longrightarrow> framed0 k' \<Longrightarrow> framed0 (seq m' k')"
  unfolding seq_def[abs_def] by (intro fr; assumption)+

lemma framed_if [fr]: "framed_on P a \<Longrightarrow> framed_on P b \<Longrightarrow> framed_on P (if c then a else b)"
  by simp

lemma framed_case_option [fr]:
  "framed_on P a \<Longrightarrow> (\<And>y. framed_on P (b y)) \<Longrightarrow> framed_on P (case x of None \<Rightarrow> a | Some y \<Rightarrow> b y)"
  by (cases x) auto

lemma framed_case_list [fr]:
  "framed_on P a \<Longrightarrow> (\<And>y ys. framed_on P (b y ys)) \<Longrightarrow> framed_on P (case x of [] \<Rightarrow> a | y # ys \<Rightarrow> b y ys)"
  by (cases x) auto

lemma framed_case_val [fr]:
  "(\<And>y. framed_on P (a y)) \<Longrightarrow> (\<And>y. framed_on P (b y)) \<Longrightarrow> framed_on P (case x of Str y \<Rightarrow> a y | Closure y \<Rightarrow> b y)"
  by (cases x) auto

lemma framed_Let [fr]: "(\<And>x. framed_on P (f x)) \<Longrightarrow> framed_on P (Let v f)"
  by simp

lemma framed_modify: "(\<And>p. P p (t p)) \<Longrightarrow> framed_on P (modify t)"
  by (auto simp: framed_on_def modify_def)

lemma framed_orElse [fr]: "framed a \<Longrightarrow> framed b \<Longrightarrow> framed (orElse a b)"
  unfolding orElse_def[abs_def] by (intro fr; assumption)

lemma framed_throw_here [fr]: "framed (throw_here k)"
  unfolding throw_here_def[abs_def] by (intro fr)

subsection \<open>Primitives\<close>

lemma frame_take_step: "frame p (take_step p)"
  by (simp add: frame_def take_step_def)

lemma framed_take_js [fr]: "framed (take_js k)"
proof (rule framedI)
  fix p x q show "take_js k p = Inr (x, q) \<Longrightarrow> frame p q"
    by (induction k p rule: take_js.induct)
       (auto intro: frame_trans [OF frame_take_step] frame_take_step)
qed

lemma frame_discardWhitespace: "frame p (discardWhitespace p)"
proof (induction p rule: discardWhitespace.induct)
  case (1 p)
  show ?case
  proof (cases "test_space (this_char p)")
    case True
    have "frame p ((take_step p)\<lparr>jumpedEscapeSequence := False\<rparr>)"
      by (simp add: frame_def take_step_def)
    then show ?thesis
      using 1 True by (subst discardWhitespace.simps) (auto intro: frame_trans)
  next
    case False
    then show ?thesis by (subst discardWhitespace.simps) simp
  qed
qed

lemma framed_discardWhitespace [fr]: "framed (modify discardWhitespace)"
  by (rule framed_modify) (rule frame_discardWhitespace)

lemma framed_testSymbol [fr]: "framed (testSymbol s off)"
  by (rule framedI)
     (auto simp: testSymbol_def testSymbolLooseyGoosey_def Let_def jump_def frame_def
        split: if_splits)

lemma map_update_same: "(\<And>x. f (g x) = f x) \<Longrightarrow> map f (xs[i := g (xs ! i)]) = map f xs"
  by (cases "i < length xs") (simp_all add: map_update list_update_same_conv list_update_beyond)

lemma framed_set_executor [fr]:
  "(\<And>x. parserFlags (f x) = parserFlags x) \<Longrightarrow> framed (set_executor c f)"
  unfolding set_executor_def[abs_def]
  by (rule framed_modify) (simp add: frame_def update_executor_def map_update_same)

lemma framed_update_closure [fr]:
  "(\<And>x. cl_scope (f x) = cl_scope x) \<Longrightarrow> framed (modify (update_closure c f))"
  by (rule framed_modify) (simp add: frame_def update_closure_def map_update_same)

lemma framed_push_executor [fr]: "framed (push_executor cl cmd)"
  unfolding push_executor_def[abs_def] by (rule framed_update_closure) simp

lemma parserFlags_new_executor [simp]: "parserFlags (new_executor c s) = None"
  by (simp add: new_executor_def)

lemma parserFlags_synthetic [simp]: "parserFlags (synthetic E a b c d) = None"
  by (simp add: synthetic_def)

lemma framed_alloc_executor [fr]: "parserFlags e = None \<Longrightarrow> framed (alloc_executor e)"
  by (rule framedI) (auto simp: frame_def alloc_executor_def carries_def)

lemma framed0_alloc_executor: "framed0 (alloc_executor e)"
  unfolding framed_on_def by (auto simp: frame0_def alloc_executor_def)

lemma framed_index_value_macros [fr]: "framed (modify (index_value_macros E v))"
  by (rule framed_modify) (simp add: frame_def index_value_macros_def indexMacros_def)

lemma framed_index_command [fr]: "framed (index_command c)"
  by (rule framedI) (auto simp: index_command_def frame_def split: option.splits)

lemma framed_push_variableName [fr]: "framed (push_variableName v)"
  by (rule framedI)
     (auto simp: push_variableName_def frame_def update_scope_def map_update_same
        split: option.splits)

lemma framed_draw_uuid [fr]: "framed (draw_uuid E)"
  by (rule framedI) (auto simp: draw_uuid_def frame_def)

lemma framed_testClosureEnd [fr]: "framed testClosureEnd"
  by (rule framedI)
     (auto simp: testClosureEnd_def split: option.splits if_splits dest: framedD [OF framed_testSymbol])

lemma framed_testBlockCommentEnd [fr]: "framed testBlockCommentEnd"
  by (rule framedI)
     (auto simp: testBlockCommentEnd_def split: if_splits dest: framedD [OF framed_testSymbol])

lemma framed_testCommentEnd [fr]: "framed testCommentEnd"
  by (rule framedI)
     (auto simp: testCommentEnd_def split: if_splits dest: framedD [OF framed_testSymbol])

subsection \<open>Composite actions\<close>

lemma framed_tests [fr]:
  "framed testClosure" "framed testCommandEnd" "framed testQuotedValue" "framed testListValue"
  "framed testValue" "framed testValueEnd" "framed testBlockComment" "framed testComment"
  "framed testParserFlag" "framed testRunShorthand" "framed testBreakPoint" "framed testBreak"
  "framed testCommand" "framed take_escaped" "framed testListValueEnd" "framed testQuotedValueEnd"
  unfolding testClosure_def[abs_def] testCommandEnd_def[abs_def] testQuotedValue_def[abs_def]
    testListValue_def[abs_def] testValue_def[abs_def] testValueEnd_def[abs_def]
    testBlockComment_def[abs_def] testComment_def[abs_def] testParserFlag_def[abs_def]
    testRunShorthand_def[abs_def] testBreakPoint_def[abs_def] testBreak_def[abs_def]
    testCommand_def[abs_def] take_escaped_def[abs_def] testListValueEnd_def[abs_def]
    testQuotedValueEnd_def[abs_def]
  by (intro fr)+

lemma framed_take_until [fr]: "framed test \<Longrightarrow> framed (take_until test n v)"
proof (induction n arbitrary: v)
  case 0
  show ?case unfolding take_until.simps(1)[abs_def] by (intro fr)
next
  case (Suc n)
  show ?case unfolding take_until.simps(2)[abs_def] by (intro fr Suc)
qed

lemma framed_push_synthetic [fr]:
  "parserFlags e = None \<Longrightarrow> framed (push_synthetic e)"
  unfolding push_synthetic_def[abs_def] by (intro fr) simp_all

lemma framed_replaceGetvar_callback [fr]: "framed (replaceGetvar_callback E v idx len c d)"
  unfolding replaceGetvar_callback_def[abs_def] by (intro fr) simp_all

lemma framed_replaceGetvar_scan [fr]: "framed (replaceGetvar_scan E v idx)"
proof (induction "length v - idx" arbitrary: idx rule: less_induct)
  case less
  have eq: "replaceGetvar_scan E v idx =
     (if idx \<ge> length v then ret []
      else case match_getvar (drop idx v) of
        None \<Rightarrow> bnd (replaceGetvar_scan E v (idx + 1)) (\<lambda>r. ret ((v ! idx) # r))
      | Some (cmd, name, len) \<Rightarrow>
          bnd (replaceGetvar_callback E v idx len cmd name) (\<lambda>rep.
          bnd (replaceGetvar_scan E v (idx + len)) (\<lambda>r. ret (rep @ r))))"
    by (rule ext) (simp add: replaceGetvar_scan.simps)
  show ?case
  proof (cases "idx \<ge> length v")
    case True
    then show ?thesis by (subst eq) (simp add: fr)
  next
    case False
    show ?thesis
    proof (cases "match_getvar (drop idx v)")
      case None
      have "framed (replaceGetvar_scan E v (idx + 1))"
        using False by (intro less) simp
      then show ?thesis using False None by (subst eq) (simp add: fr)
    next
      case (Some m)
      obtain cmd name len where m: "m = (cmd, name, len)" by (cases m)
      have "0 < len" using Some m by (auto dest: match_getvar_pos)
      then have "framed (replaceGetvar_scan E v (idx + len))"
        using False by (intro less) simp
      then show ?thesis using False Some m by (subst eq) (simp add: fr)
    qed
  qed
qed

lemma framed_replaceGetvar [fr]: "framed (replaceGetvar E v)"
  unfolding replaceGetvar_def[abs_def] by (intro fr)

lemma framed_replace_if_flagged [fr]: "framed (replace_if_flagged E v)"
  unfolding replace_if_flagged_def[abs_def] by (intro fr)

lemma framed_finish_value [fr]: "framed (finish_value E v)"
  unfolding finish_value_def[abs_def] by (intro fr)

lemma framed_values [fr]:
  "framed (parseQuotedValue E n)" "framed (parseListValue E n)" "framed (parseValue E n)"
  unfolding parseQuotedValue_def[abs_def] parseListValue_def[abs_def] parseValue_def[abs_def]
  by (intro fr)+

lemma framed_named_value [fr]: "framed pc \<Longrightarrow> framed (named_value E pc n)"
  unfolding named_value_def[abs_def] by (intro fr)

lemma framed_parseNamedArgument [fr]: "framed pc \<Longrightarrow> framed (parseNamedArgument E pc n)"
  unfolding parseNamedArgument_def[abs_def] by (intro fr)

lemma framed_namedArgument_loop [fr]:
  "framed pc \<Longrightarrow> (\<And>arg. framed (after arg)) \<Longrightarrow> framed (namedArgument_loop E pc after n)"
proof (induction n)
  case 0
  show ?case unfolding namedArgument_loop.simps(1)[abs_def] by (intro fr)
next
  case (Suc n)
  show ?case unfolding namedArgument_loop.simps(2)[abs_def] by (intro fr Suc)
qed

lemma framed_quoted_element [fr]: "framed (quoted_element E n u)"
  unfolding quoted_element_def[abs_def] by (intro fr)

lemma framed_split_token [fr]: "framed tok \<Longrightarrow> framed (split_token tok quoted u)"
  unfolding split_token_def[abs_def] by (intro fr)

lemma framed_split_element [fr]: "framed (split_element E n u)"
  unfolding split_element_def[abs_def] by (intro fr)

lemma framed_split_cap [fr]: "framed (split_cap E n splitCount u)"
  unfolding split_cap_def[abs_def] by (intro fr)

lemma framed_text_before_closure [fr]: "framed (text_before_closure E n u)"
  unfolding text_before_closure_def[abs_def] by (intro fr)

lemma framed_closure_element [fr]: "framed pc \<Longrightarrow> framed (closure_element E pc n u)"
  unfolding closure_element_def[abs_def] by (intro fr)

lemma framed_unnamedArgument_loop [fr]:
  "framed pc \<Longrightarrow> framed (unnamedArgument_loop E pc splitCount n u)"
proof (induction n arbitrary: u)
  case 0
  show ?case unfolding unnamedArgument_loop.simps(1)[abs_def] by (intro fr)
next
  case (Suc n)
  show ?case unfolding unnamedArgument_loop.simps(2)[abs_def] by (intro fr Suc)
qed

lemma framed_scan_unnamed [fr]: "framed pc \<Longrightarrow> framed (scan_unnamed E pc n split splitCount raw)"
  unfolding scan_unnamed_def[abs_def] by (intro fr)

lemma framed_parseUnnamedArgument [fr]:
  "framed pc \<Longrightarrow> framed (parseUnnamedArgument E pc n split splitCount raw)"
  unfolding parseUnnamedArgument_def[abs_def] by (intro fr)

subsection \<open>Statements\<close>

lemma framed_blockComment:
  "framed (parseBlockComment E n) \<and> framed (blockComment_loop E n)"
proof (induction n)
  case 0
  show ?case
    unfolding parseBlockComment.simps(1)[abs_def] blockComment_loop.simps(1)[abs_def]
    by (intro conjI fr)
next
  case (Suc n)
  have 1: "framed (blockComment_loop E (Suc n))"
    unfolding blockComment_loop.simps(2)[abs_def] using Suc by (intro fr) auto
  have 2: "framed (parseBlockComment E (Suc n))"
    unfolding parseBlockComment.simps(2)[abs_def] using Suc by (intro fr) auto
  show ?case by (rule conjI [OF 2 1])
qed

lemmas framed_parseBlockComment [fr] = framed_blockComment [THEN conjunct1]

lemma framed_parseComment [fr]: "framed (parseComment E n)"
  unfolding parseComment_def[abs_def] by (intro fr) auto

lemma startsWith_prefix: "startsWith t u \<longleftrightarrow> prefix u t"
  by (induction t u rule: startsWith.induct) auto

lemma slice_from_ahead:
  assumes "prefix s (slice_from t i)" "int k - 1 \<le> i" shows "sublist s (drop (k - 1) t)"
proof -
  have "\<exists>j. k - 1 \<le> j \<and> slice_from t i = drop j t"
  proof (cases "0 \<le> i")
    case True
    then show ?thesis using assms(2) by (intro exI [of _ "nat i"]) (auto simp: slice_from_def)
  next
    case False
    then have "k = 0" using assms(2) by simp
    then show ?thesis by (auto simp: slice_from_def)
  qed
  then obtain j where j: "k - 1 \<le> j" "slice_from t i = drop j t" by blast
  from assms(1) obtain zs where "drop j t = s @ zs" unfolding j(2) by (auto simp: prefix_def)
  then have "sublist s (drop j t)" unfolding sublist_def by (metis append_Nil)
  moreover have "drop j t = drop (j - (k - 1)) (drop (k - 1) t)"
    using j(1) by (simp only: drop_drop le_add_diff_inverse2)
  then have "sublist (drop j t) (drop (k - 1) t)" by (metis sublist_drop)
  ultimately show ?thesis by (metis sublist_order.order_trans)
qed

lemma testSymbol_ahead:
  assumes "testSymbol (Lit s) 0 p = Inr (True, q)"
  shows "sublist s (drop (index p - 1) (p_text p))"
proof -
  define e where "e = (if jumpedEscapeSequence p then - 1 else (0::int))"
  define pos where "pos = int (index p) + 0 + e"
  have pos: "int (index p) - 1 \<le> pos" by (simp add: pos_def e_def)
  have "matches (Lit s) (slice_from (p_text p) pos)
      \<or> matches (Lit s) (slice_from (p_text p) (pos + 1))
      \<or> matches (Lit s) (slice_from (p_text p)
           (pos + int (length (takeWhile (\<lambda>c. c = backslash) (slice_from (p_text p) pos)))))"
    using assms unfolding testSymbol_def testSymbolLooseyGoosey_def Let_def pos_def e_def
    by (auto split: if_splits)
  then show ?thesis
  proof (elim disjE)
    assume "matches (Lit s) (slice_from (p_text p) pos)"
    then show ?thesis
      using pos by (intro slice_from_ahead [where i = pos]) (auto simp: startsWith_prefix)
  next
    assume "matches (Lit s) (slice_from (p_text p) (pos + 1))"
    then show ?thesis
      using pos by (intro slice_from_ahead [where i = "pos + 1"]) (auto simp: startsWith_prefix)
  next
    let ?k = "int (length (takeWhile (\<lambda>c. c = backslash) (slice_from (p_text p) pos)))"
    assume "matches (Lit s) (slice_from (p_text p) (pos + ?k))"
    then show ?thesis
      using pos by (intro slice_from_ahead [where i = "pos + ?k"]) (auto simp: startsWith_prefix)
  qed
qed

lemma framed_bnd_testParserFlag:
  assumes "framed0 a" "framed b"
  shows "framed (bnd testParserFlag (\<lambda>x. if x then a else b))"
proof (rule framedI)
  fix p y r assume "bnd testParserFlag (\<lambda>x. if x then a else b) p = Inr (y, r)"
  then obtain x q where 1: "testParserFlag p = Inr (x, q)"
    and 2: "(if x then a else b) q = Inr (y, r)"
    by (auto simp: bnd_Inr)
  have f: "frame p q" using 1 by (rule framedD [OF framed_tests(9)])
  show "frame p r"
  proof (cases x)
    case True
    then have "flag_ahead p"
      using 1 unfolding testParserFlag_def flag_ahead_def flag_text_def
      by (auto dest: testSymbol_ahead)
    moreover have "frame0 q r" using assms(1) 2 True unfolding framed_on_def by auto
    then have "frame0 p r" using f by (blast intro: frame0_trans frame_frame0)
    ultimately show ?thesis by (simp add: frame_frame0_iff)
  next
    case False
    then have "frame q r" using assms(2) 2 by (auto dest: framedD)
    with f show ?thesis by (rule frame_trans)
  qed
qed

lemma framed0_modify_flags: "framed0 (modify (\<lambda>p. p\<lparr>flags := g p\<rparr>))"
  by (auto simp: framed_on_def modify_def frame0_def)

lemma framed0_apply_flag: "framed0 (apply_flag E args)"
  unfolding apply_flag_def[abs_def] by (intro fr framed0_modify_flags)

lemmas framed0_leaves =
  framed0_alloc_executor
  framed_index_command [THEN framed0_weaken]
  framed_take_js [THEN framed0_weaken]
  framed_set_executor [THEN framed0_weaken]
  framed_parseUnnamedArgument [THEN framed0_weaken]

lemma framed0_parseParserFlag:
  "framed pc \<Longrightarrow> framed0 (parseParserFlag E pc n)"
  unfolding parseParserFlag_def[abs_def]
  by (intro fr framed0_leaves framed0_apply_flag) auto

lemma framed_parseRunShorthand [fr]: "framed pc \<Longrightarrow> framed (parseRunShorthand E pc n)"
  unfolding parseRunShorthand_def[abs_def]
  by (intro fr framed_modify frame_discardWhitespace) auto

lemma framed_parseBreakPoint [fr]: "framed (parseBreakPoint E)"
  unfolding parseBreakPoint_def[abs_def] by (intro fr) auto

lemma framed_parseBreak [fr]: "framed pc \<Longrightarrow> framed (parseBreak E pc n)"
  unfolding parseBreak_def[abs_def]
  by (intro fr framed_modify frame_discardWhitespace) auto

lemma framed_push_variableNames [fr]: "framed (push_variableNames xs)"
proof (induction xs)
  case Nil
  show ?case unfolding push_variableNames.simps(1)[abs_def] by (intro fr)
next
  case (Cons x xs)
  show ?case unfolding push_variableNames.simps(2)[abs_def] by (intro fr Cons)
qed

lemma framed_register_variables [fr]: "framed (register_variables E cmd)"
  unfolding register_variables_def[abs_def] by (intro fr)

lemma framed_parse_unnamed_of_command [fr]:
  "framed pc \<Longrightarrow> framed (parse_unnamed_of_command E pc n cmd)"
  unfolding parse_unnamed_of_command_def[abs_def] by (intro fr) auto

lemma framed_command_name [fr]: "framed (command_name n)"
  unfolding command_name_def[abs_def] by (intro fr)

lemma framed_alloc_snapshot:
  assumes "\<And>c. framed (K c)" "\<And>f. parserFlags (X f) = Some f"
  shows "framed (bnd (gets flags) (\<lambda>current. bnd (alloc_executor (X current)) K))"
proof (rule framedI)
  fix p y r
  assume "bnd (gets flags) (\<lambda>current. bnd (alloc_executor (X current)) K) p = Inr (y, r)"
  then obtain c where k: "K c (p\<lparr>executors := executors p @ [X (flags p)]\<rparr>) = Inr (y, r)"
    by (auto simp: bnd_Inr gets_def alloc_executor_def)
  have "frame p (p\<lparr>executors := executors p @ [X (flags p)]\<rparr>)"
    by (simp add: frame_def carries_def assms(2))
  moreover have "frame (p\<lparr>executors := executors p @ [X (flags p)]\<rparr>) r"
    using k by (rule framedD [OF assms(1)])
  ultimately show "frame p r" by (rule frame_trans)
qed

lemma framed_parseCommand [fr]: "framed pc \<Longrightarrow> framed (parseCommand E pc n)"
  unfolding parseCommand_def[abs_def]
  apply (rule framed_bnd [OF framed_gets(1)])
  apply (rule framed_alloc_snapshot)
   apply (intro fr framed_modify frame_discardWhitespace; simp)
  apply simp
  done

lemma framed_statement [fr]: "framed pc \<Longrightarrow> framed (statement E pc n cl inject)"
  unfolding statement_def[abs_def]
  by (intro framed_bnd_testParserFlag framed0_parseParserFlag fr) auto

lemma framed_pipes [fr]: "framed (pipes inject)"
  unfolding pipes_def[abs_def]
  by (intro fr framed_modify frame_discardWhitespace)

lemma framed_closure_loop [fr]:
  "framed pc \<Longrightarrow> framed (closure_loop E pc n cl inject)"
proof (induction n arbitrary: inject)
  case 0
  show ?case unfolding closure_loop.simps(1)[abs_def] by (intro fr)
next
  case (Suc n)
  show ?case unfolding closure_loop.simps(2)[abs_def] by (intro fr Suc)
qed

lemma framed_finish_closure [fr]: "framed (finish_closure isRoot l)"
  unfolding finish_closure_def[abs_def] by (intro fr) auto

lemma framed_closure_content [fr]:
  "framed pc \<Longrightarrow> framed (closure_content E pc n isRoot l)"
  unfolding closure_content_def[abs_def]
  by (intro fr framed_modify frame_discardWhitespace) auto

subsection \<open>The effect of parsing a closure\<close>

lemma seq_Inr: "seq m k p = Inr (y, r) \<longleftrightarrow> (\<exists>x q. m p = Inr (x, q) \<and> k q = Inr (y, r))"
  by (simp add: seq_def bnd_Inr)

lemma nth_map_prefix:
  assumes "prefix (map f xs) (map f ys)" "i < length xs"
  shows "f (ys ! i) = f (xs ! i)"
proof -
  from assms(1) obtain zs where z: "map f ys = map f xs @ zs" by (auto simp: prefix_def)
  then have "length (map f ys) = length (map f xs @ zs)" by simp
  then have l: "i < length ys" using assms(2) by simp
  have "(map f ys) ! i = (map f xs) ! i" using z assms(2) by (simp add: nth_append)
  then show ?thesis using l assms(2) by simp
qed

lemma take_js_2: "take_js 2 p = Inr (c, q) \<Longrightarrow> index q = index p + 2"
  by (auto simp: numeral_2_eq_2 take_step_def)

lemma open_closure_effect:
  assumes "open_closure isRoot p = Inr (l, p1)"
  shows "l_entry l = length (closureIndex p)" "l_closure l = length (closures p)"
    "l_oldClosure l = closure p"
    "p_text p1 = p_text p" "verifyCommandNames p1 = verifyCommandNames p"
    "debugController p1 = debugController p" "flags p1 = flags p"
    "index p1 = index p + (if isRoot then 0 else 2)"
    "scope p1 = Some (length (scopes p))" "closure p1 = Some (length (closures p))"
    "scopes p1 = scopes p @ [\<lparr>variableNames = [], sc_parent = scope p\<rparr>]"
    "map cl_scope (closures p1) = map cl_scope (closures p) @ [length (scopes p)]"
    "executors p1 = executors p"
    "closureIndex p1 = closureIndex p @ [(int (index p) + 1, None)]"
  using assms
  by (auto simp: open_closure_def bnd_def seq_def gets_def modify_def ret_def new_closure_def
      take_step_def numeral_2_eq_2 split: if_splits)

lemma finish_closure_advance:
  assumes "finish_closure False l p = Inr (u, q)"
  shows "index p + 2 \<le> index q"
proof -
  define k where "k = bnd (testSymbol (Lit ''()'') 0) (\<lambda>b.
           if b then
             seq (take_js 2)
               (modify (update_closure (l_closure l) (\<lambda>x. x\<lparr>executeNow := True\<rparr>)))
           else ret ())"
  have fk: "framed k" unfolding k_def by (intro fr) auto
  from assms obtain c p0 p' where 1: "take_js 2 p0 = Inr (c, p')" and 2: "k p' = Inr (u, q)"
    and 0: "index p0 = index p"
    unfolding finish_closure_def k_def [symmetric]
    by (auto simp: bnd_Inr seq_Inr gets_def modify_def ret_def update_closure_def
        simp del: take_js.simps)
  have "index p' \<le> index q" using framedD [OF fk 2] by (simp add: frame_def)
  then show ?thesis using take_js_2 [OF 1] 0 by simp
qed

lemma closure_loop_end:
  assumes "framed pc" "closure_loop E pc n cl inject p = Inr (u, q)"
  shows "\<exists>q0. frame p q0 \<and> testClosureEnd q0 = Inr (True, q)"
  using assms(2)
proof (induction n arbitrary: inject p)
  case 0
  then show ?case by (simp add: throw_def)
next
  case (Suc n)
  from Suc.prems obtain stop p1 where 1: "testClosureEnd p = Inr (stop, p1)"
    and 2: "(if stop then ret ()
             else bnd (statement E pc n cl inject) (\<lambda>inject1.
                  bnd (pipes inject1) (closure_loop E pc n cl))) p1 = Inr (u, q)"
    by (auto simp: bnd_Inr)
  show ?case
  proof (cases stop)
    case True
    then have "q = p1" using 2 by (simp add: ret_def)
    then show ?thesis using 1 True by (intro exI [of _ p]) simp
  next
    case False
    then obtain i1 p2 i2 p3 where 3: "statement E pc n cl inject p1 = Inr (i1, p2)"
      and 4: "pipes i1 p2 = Inr (i2, p3)"
      and 5: "closure_loop E pc n cl i2 p3 = Inr (u, q)"
      using 2 by (auto simp: bnd_Inr)
    from Suc.IH [OF 5] obtain q0 where 6: "frame p3 q0" and 7: "testClosureEnd q0 = Inr (True, q)"
      by blast
    have "frame p p1" using 1 by (rule framedD [OF framed_testClosureEnd])
    moreover have "frame p1 p2" using 3 by (rule framedD [OF framed_statement [OF assms(1)]])
    moreover have "frame p2 p3" using 4 by (rule framedD [OF framed_pipes])
    ultimately have "frame p q0" using 6 by (blast intro: frame_trans)
    then show ?thesis using 7 by blast
  qed
qed

lemma testClosureEnd_root:
  assumes "testClosureEnd q0 = Inr (True, q)" "scope q0 = Some s" "sc_parent (scopes q0 ! s) = None"
  shows "q = q0 \<and> length (p_text q0) \<le> index q0"
  using assms by (auto simp: testClosureEnd_def)

lemma closure_content_effect:
  assumes pc: "framed pc" and run: "closure_content E pc n isRoot l p1 = Inr (u, p2)"
  shows "frame p1 p2"
    and "\<not> isRoot \<Longrightarrow> index p1 + 2 \<le> index p2"
    and "scope p1 = Some s \<Longrightarrow> s < length (scopes p1) \<Longrightarrow> sc_parent (scopes p1 ! s) = None
         \<Longrightarrow> length (p_text p1) \<le> index p2"
proof -
  show f12: "frame p1 p2" using run by (rule framedD [OF framed_closure_content [OF pc]])
  define args where "args = namedArgument_loop E pc
               (\<lambda>arg. seq (modify (update_closure (l_closure l)
                                     (\<lambda>x. x\<lparr>argumentList := argumentList x @ [arg]\<rparr>)))
                         (push_variableName (Str (na_name arg))))
               n"
  have fa: "framed args" unfolding args_def by (intro fr pc framed_modify) auto
  from run obtain x pa y pb z pc' where a: "modify discardWhitespace p1 = Inr (x, pa)"
    and b: "args pa = Inr (y, pb)"
    and c: "closure_loop E pc n (l_closure l) True pb = Inr (z, pc')"
    and d: "finish_closure isRoot l pc' = Inr (u, p2)"
    unfolding closure_content_def args_def [symmetric] by (auto simp: seq_Inr)
  have f1: "frame p1 pa" using a by (auto simp: modify_def frame_discardWhitespace)
  have f2: "frame pa pb" using b by (rule framedD [OF fa])
  have f3: "frame pb pc'" using c by (rule framedD [OF framed_closure_loop [OF pc]])
  have f4: "frame pc' p2" using d by (rule framedD [OF framed_finish_closure])
  have f13: "frame p1 pc'" using f1 f2 f3 by (blast intro: frame_trans)
  { assume "\<not> isRoot"
    then have "index pc' + 2 \<le> index p2" using d by (auto dest: finish_closure_advance)
    then show "index p1 + 2 \<le> index p2" using f13 by (simp add: frame_def) }
  { assume s: "scope p1 = Some s" "s < length (scopes p1)" "sc_parent (scopes p1 ! s) = None"
    from closure_loop_end [OF pc c] obtain q0 where q0: "frame pb q0"
      and e: "testClosureEnd q0 = Inr (True, pc')" by blast
    have f: "frame p1 q0" using f1 f2 q0 by (blast intro: frame_trans)
    then have "scope q0 = Some s" using s by (simp add: frame_def)
    moreover have "sc_parent (scopes q0 ! s) = None"
      using f s nth_map_prefix [of sc_parent "scopes p1" "scopes q0" s] by (simp add: frame_def)
    ultimately have "pc' = q0 \<and> length (p_text q0) \<le> index q0"
      using e by (intro testClosureEnd_root)
    then have "length (p_text p1) \<le> index pc'" using f by (simp add: frame_def)
    then show "length (p_text p1) \<le> index p2" using f4 by (simp add: frame_def) }
qed

lemma parseClosure_body_effect:
  assumes pc: "framed pc" and run: "parseClosure_body E pc n isRoot p = Inr (c, q)"
  shows "c = length (closures p)"
    and "p_text q = p_text p \<and> verifyCommandNames q = verifyCommandNames p
         \<and> debugController q = debugController p"
    and "index p + (if isRoot then 0 else 4) \<le> index q"
    and "scope q = scope p"
    and "closure q = (case closure p of None \<Rightarrow> Some c | Some x \<Rightarrow> Some x)"
    and "prefix (map sc_parent (scopes p)) (map sc_parent (scopes q))
         \<and> prefix (map cl_scope (closures p)) (map cl_scope (closures q))
         \<and> prefix (map parserFlags (executors p)) (map parserFlags (executors q))"
    and "\<exists>ys. closureIndex q
                = closureIndex p @ (int (index p) + 1, Some (int (index q) - 1)) # ys
              \<and> list_all span_ok ys
              \<and> Suc (length ys + length (closures p)) = length (closures q)"
    and "flag_ahead p \<or>
          (flags q = flags p
           \<and> list_all (carries (flags p))
                (drop (length (executors p)) (map parserFlags (executors q))))"
    and "sc_parent (scopes q ! cl_scope (closures q ! c)) = scope p"
    and "scope p = None \<Longrightarrow> length (p_text p) \<le> index q"
proof -
  from run obtain l p1 u p2 where o: "open_closure isRoot p = Inr (l, p1)"
    and m: "closure_content E pc n isRoot l p1 = Inr (u, p2)"
    and e: "leave_closure l p2 = Inr (c, q)"
    unfolding parseClosure_body_def by (auto simp: bnd_Inr seq_Inr)
  note oe = open_closure_effect [OF o]
  note ce = closure_content_effect [OF pc m]
  have f: "frame p1 p2" by (rule ce(1))
  have lenc: "length (closures p1) = Suc (length (closures p))"
    using arg_cong [OF oe(12), of length] by simp
  have c: "c = l_closure l" using e by (auto simp: leave_closure_def)
  show 1: "c = length (closures p)" using c oe(2) by simp
  have q: "q = p2\<lparr>closureIndex := (closureIndex p2)
            [l_entry l := (fst (closureIndex p2 ! l_entry l), Some (int (index p2) - 1))],
         scope := sc_parent (scopes p2 ! cl_scope (closures p2 ! l_closure l)),
         closure := (case l_oldClosure l of None \<Rightarrow> Some (l_closure l) | Some c \<Rightarrow> Some c)\<rparr>"
    using e by (auto simp: leave_closure_def)
  show "p_text q = p_text p \<and> verifyCommandNames q = verifyCommandNames p
         \<and> debugController q = debugController p"
    using f oe(4-6) by (simp add: q frame_def)
  show "index p + (if isRoot then 0 else 4) \<le> index q"
  proof (cases isRoot)
    case True
    then show ?thesis using f oe(8) by (simp add: q frame_def)
  next
    case False
    then show ?thesis using ce(2) oe(8) by (simp add: q)
  qed
  have "cl_scope (closures p2 ! c) = cl_scope (closures p1 ! c)"
    using f lenc 1 by (intro nth_map_prefix) (simp_all add: frame_def)
  also have "\<dots> = map cl_scope (closures p1) ! c" using lenc 1 by simp
  also have "\<dots> = length (scopes p)" unfolding oe(12) using 1 by (simp add: nth_append)
  finally have cs: "cl_scope (closures p2 ! c) = length (scopes p)" .
  have "sc_parent (scopes p2 ! length (scopes p)) = sc_parent (scopes p1 ! length (scopes p))"
    using f oe(11) by (intro nth_map_prefix) (simp_all add: frame_def)
  then have sp: "sc_parent (scopes p2 ! length (scopes p)) = scope p" using oe(11) by simp
  show "scope q = scope p" using cs sp c by (simp add: q)
  show "closure q = (case closure p of None \<Rightarrow> Some c | Some x \<Rightarrow> Some x)"
    using oe(3) c by (simp add: q split: option.splits)
  have "prefix (map sc_parent (scopes p)) (map sc_parent (scopes p1))"
    "prefix (map cl_scope (closures p)) (map cl_scope (closures p1))"
    using oe(11,12) by simp_all
  then show "prefix (map sc_parent (scopes p)) (map sc_parent (scopes q))
         \<and> prefix (map cl_scope (closures p)) (map cl_scope (closures q))
         \<and> prefix (map parserFlags (executors p)) (map parserFlags (executors q))"
    using f oe(13) by (auto simp: q frame_def intro: prefix_order.trans)
  from f obtain ys where ys: "closureIndex p2 = closureIndex p1 @ ys" "list_all span_ok ys"
    "length ys + length (closures p1) = length (closures p2)"
    by (auto simp: frame_def)
  have "closureIndex q = closureIndex p @ (int (index p) + 1, Some (int (index q) - 1)) # ys"
    using ys(1) oe(1,14) by (simp add: q nth_append)
  moreover have "Suc (length ys + length (closures p)) = length (closures q)"
    using ys(3) lenc by (simp add: q)
  ultimately show "\<exists>ys. closureIndex q
                = closureIndex p @ (int (index p) + 1, Some (int (index q) - 1)) # ys
              \<and> list_all span_ok ys
              \<and> Suc (length ys + length (closures p)) = length (closures q)"
    using ys(2) by blast
  have "flag_ahead p1 \<Longrightarrow> flag_ahead p"
    using oe(4,8) by (intro flag_ahead_mono [of p1 p]) simp_all
  then show "flag_ahead p \<or>
          (flags q = flags p
           \<and> list_all (carries (flags p))
                (drop (length (executors p)) (map parserFlags (executors q))))"
    using f oe(7,13) by (auto simp: q frame_def)
  show "sc_parent (scopes q ! cl_scope (closures q ! c)) = scope p"
    using cs sp by (simp add: q)
  { assume "scope p = None"
    then have "length (p_text p1) \<le> index p2"
      using oe(9,11) by (intro ce(3) [of "length (scopes p)"]) simp_all
    then show "length (p_text p) \<le> index q" using oe(4) by (simp add: q) }
qed

lemma framed_parseClosure_body:
  assumes "framed pc" shows "framed (parseClosure_body E pc n False)"
proof (rule framedI)
  fix p c q assume run: "parseClosure_body E pc n False p = Inr (c, q)"
  note b = parseClosure_body_effect [OF assms run]
  from b(7) obtain ys where ys: "closureIndex q
                = closureIndex p @ (int (index p) + 1, Some (int (index q) - 1)) # ys"
    "list_all span_ok ys" "Suc (length ys + length (closures p)) = length (closures q)"
    by blast
  have "span_ok (int (index p) + 1, Some (int (index q) - 1))"
    using b(3) by (simp add: span_ok_def)
  then have "\<exists>zs. closureIndex q = closureIndex p @ zs \<and> list_all span_ok zs
       \<and> length zs + length (closures p) = length (closures q)"
    using ys by (intro exI [of _ "(int (index p) + 1, Some (int (index q) - 1)) # ys"]) simp
  then show "frame p q"
    unfolding frame_def using b(2,3,4,5,6,8) by (auto split: option.splits)
qed

lemma framed_parseClosure: "framed (parseClosure E n False)"
proof (induction n)
  case 0
  show ?case unfolding parseClosure.simps(1)[abs_def] by (intro fr)
next
  case (Suc n)
  show ?case unfolding parseClosure.simps(2)[abs_def]
    by (rule framed_parseClosure_body [OF Suc])
qed

lemma parseClosure_effect:
  assumes "parseClosure E n isRoot p = Inr (c, q)"
  shows "\<exists>m. parseClosure_body E (parseClosure E m False) m isRoot p = Inr (c, q)"
  using assms by (cases n) (auto simp: throw_def)

lemma result_cases: "\<not> isl r \<Longrightarrow> r = Inr (fst (projr r), snd (projr r))"
  by (cases r) auto

lemma bnd_InrE:
  assumes "bnd m f p = Inr (y, r)"
  obtains x q where "m p = Inr (x, q)" "f x q = Inr (y, r)"
  using assms by (auto simp: bnd_Inr)

lemma parseCommand_returns:
  assumes "parseCommand E pc n p = Inr (cmd, q)"
  shows "cmd = length (executors p)"
  using assms unfolding parseCommand_def
  by (auto simp: bnd_Inr seq_Inr gets_def ret_def throw_def throw_here_def alloc_executor_def
      split: if_splits)

lemma alloc_then:
  assumes "bnd (gets index) (\<lambda>i. bnd (gets flags) (\<lambda>current.
             bnd (alloc_executor (X i current)) K)) p = Inr (cmd, q)"
    and "\<And>c. framed (K c)"
  shows "parserFlags (executors q ! length (executors p)) = parserFlags (X (index p) (flags p))
       \<and> length (executors p) < length (executors q)"
proof -
  from assms(1) obtain c where k: "K c (p\<lparr>executors := executors p @ [X (index p) (flags p)]\<rparr>)
      = Inr (cmd, q)"
    by (auto simp: bnd_Inr gets_def alloc_executor_def)
  let ?p = "p\<lparr>executors := executors p @ [X (index p) (flags p)]\<rparr>"
  have "frame ?p q" using k by (rule framedD [OF assms(2)])
  then have pre: "prefix (map parserFlags (executors ?p)) (map parserFlags (executors q))"
    by (simp add: frame_def)
  have "parserFlags (executors q ! length (executors p))
      = parserFlags (executors ?p ! length (executors p))"
    using pre by (intro nth_map_prefix) simp_all
  moreover have "length (executors p) < length (executors q)"
    using prefix_length_le [OF pre] by simp
  ultimately show ?thesis by simp
qed

lemma parseCommand_snapshot:
  assumes pc: "framed pc" and run: "parseCommand E pc n p = Inr (cmd, q)"
  shows "parserFlags (executors q ! length (executors p)) = Some (flags p)
       \<and> length (executors p) < length (executors q)"
proof -
  have "parserFlags (executors q ! length (executors p))
          = parserFlags ((new_executor Executor (int (index p) + 1))\<lparr>parserFlags := Some (flags p)\<rparr>)
       \<and> length (executors p) < length (executors q)"
    using run unfolding parseCommand_def
    by (rule alloc_then) (intro fr framed_modify frame_discardWhitespace pc; simp)
  then show ?thesis by simp
qed

subsection \<open>The effect of a flag statement\<close>

lemma parseParserFlag_effect:
  assumes pc: "framed pc" and run: "parseParserFlag E pc n p = Inr (u, q)"
  shows "\<exists>key state. flag_argument E (executors q ! length (executors p)) = Some (key, state)
            \<and> (key = ''STRICT_ESCAPING'' \<longrightarrow> STRICT_ESCAPING (flags q) = state)
            \<and> (key = ''REPLACE_GETVAR'' \<longrightarrow> REPLACE_GETVAR (flags q) = state)"
proof -
  let ?cmd = "length (executors p)"
  let ?p0 = "p\<lparr>executors := executors p @
              [(new_executor Executor (int (index p) + 1))
                 \<lparr>ex_name := ''parser-flag'', ex_command := commands E ''parser-flag''\<rparr>]\<rparr>"
  from run obtain p1 c p2 args p3 p4 where
    a: "index_command ?cmd ?p0 = Inr ((), p1)"
    and b: "take_js 13 p1 = Inr (c, p2)"
    and c: "parseUnnamedArgument E pc n True None False
              (update_executor ?cmd (\<lambda>x. x\<lparr>startNamedArgs := Some (- 1),
                 endNamedArgs := Some (- 1), startUnnamedArgs := Some (int (index p2))\<rparr>) p2)
            = Inr (args, p3)"
    and d: "apply_flag E args
              (update_executor ?cmd (\<lambda>x. x\<lparr>unnamedArgumentList := args,
                  endUnnamedArgs := Some (int (index p3))\<rparr>) p3) = Inr ((), p4)"
    and e: "q = update_executor ?cmd (\<lambda>x. x\<lparr>ex_end := Some (int (index p4))\<rparr>) p4"
    unfolding parseParserFlag_def
    by (auto simp: bnd_Inr seq_Inr gets_def alloc_executor_def set_executor_def modify_def
        simp del: take_js.simps)
  have l0: "?cmd < length (executors ?p0)" by simp
  have "frame ?p0 p1" using a by (rule framedD [OF framed_index_command])
  moreover have "frame p1 p2" using b by (rule framedD [OF framed_take_js])
  ultimately have "length (executors ?p0) \<le> length (executors p2)"
    by (auto simp: frame_def dest!: prefix_length_le)
  moreover have "frame (update_executor ?cmd (\<lambda>x. x\<lparr>startNamedArgs := Some (- 1),
                 endNamedArgs := Some (- 1), startUnnamedArgs := Some (int (index p2))\<rparr>) p2) p3"
    using c by (rule framedD [OF framed_parseUnnamedArgument [OF pc]])
  ultimately have l3: "?cmd < length (executors p3)"
    by (auto simp: frame_def update_executor_def dest!: prefix_length_le)
  let ?p3 = "update_executor ?cmd (\<lambda>x. x\<lparr>unnamedArgumentList := args,
                  endUnnamedArgs := Some (int (index p3))\<rparr>) p3"
  have x3: "unnamedArgumentList (executors ?p3 ! ?cmd) = args"
    using l3 by (simp add: update_executor_def)
  from d obtain flag rest where args: "args = flag # rest"
    by (cases args) (auto simp: apply_flag_def throw_def)
  let ?key = "val_toString E (ua_value flag)"
  let ?state = "isTrueBoolean E (case rest of [] \<Rightarrow> ''on'' | st # xs \<Rightarrow> val_toString E (ua_value st))"
  have e4: "executors p4 = executors ?p3"
    and f4: "flags p4 = (if ?key \<in> set [''STRICT_ESCAPING'', ''REPLACE_GETVAR'']
                         then set_flag ?key ?state (flags p3) else flags p3)"
    using d unfolding args apply_flag_def
    by (auto simp: Let_def modify_def ret_def update_executor_def split: if_splits)
  have "unnamedArgumentList (executors q ! ?cmd) = args"
    using x3 l3 unfolding e by (simp add: update_executor_def e4)
  then have 1: "flag_argument E (executors q ! ?cmd) = Some (?key, ?state)"
    by (simp add: flag_argument_def args)
  have 2: "flags q = flags p4" unfolding e by (simp add: update_executor_def)
  show ?thesis
    using 1 2 f4 by (auto simp: set_flag_def)
qed

subsection \<open>The list parser on a text without a closing bracket\<close>

lemma startsWith_single: "startsWith xs [c] \<Longrightarrow> c \<in> set xs"
  by (cases xs) auto

lemma testSymbol_absent:
  assumes "\<not> jumpedEscapeSequence p" "c \<notin> set (drop (index p) (p_text p))"
  shows "testSymbol (Lit [c]) 0 p = Inr (False, p)"
proof -
  have "\<not> startsWith (slice_from (p_text p) (int (index p) + int k)) [c]" for k
  proof
    assume "startsWith (slice_from (p_text p) (int (index p) + int k)) [c]"
    then have "c \<in> set (drop (index p + k) (p_text p))"
      by (auto simp: slice_from_def nat_add_distrib dest!: startsWith_single)
    moreover have "set (drop (index p + k) (p_text p)) \<subseteq> set (drop (index p) (p_text p))"
      by (rule set_drop_subset_set_drop) simp
    ultimately show False using assms(2) by auto
  qed
  from this [of 0] this [of 1]
    this [of "length (takeWhile (\<lambda>c. c = backslash) (slice_from (p_text p) (int (index p))))"]
  show ?thesis
    using assms(1) by (simp add: testSymbol_def testSymbolLooseyGoosey_def Let_def)
qed

lemma take_until_list_end:
  assumes "\<not> jumpedEscapeSequence q" "CHR '']'' \<notin> set (drop (index q) (p_text q))"
    "length (p_text q) - index q < n"
  shows "\<exists>k. take_until testListValueEnd n acc q
               = Inl (SlashCommandParserError UnterminatedList (Some (int k)))
           \<and> index q \<le> k \<and> k \<le> max (length (p_text q)) (index q)
           \<and> (k < length (p_text q) \<longrightarrow> list_all is_space (drop k (p_text q)))"
  using assms
proof (induction n arbitrary: q acc)
  case 0
  then show ?case by simp
next
  case (Suc n)
  show ?case
  proof (cases "endOfText q")
    case True
    have "take_until testListValueEnd (Suc n) acc q
        = Inl (SlashCommandParserError UnterminatedList (Some (int (index q))))"
      using True
      by (simp add: testListValueEnd_def bnd_def gets_def throw_here_def throw_def)
    moreover have "index q < length (p_text q) \<longrightarrow> list_all is_space (drop (index q) (p_text q))"
    proof
      assume l: "index q < length (p_text q)"
      then have "test_space (this_char q)" "list_all is_space (ahead q)"
        using True by (auto simp: endOfText_def)
      then have "is_space (p_text q ! index q)" "list_all is_space (drop (Suc (index q)) (p_text q))"
        using l by (auto simp: test_space_def this_char_def char_at_def to_string_def ahead_def
            slice_from_def nat_add_distrib)
      then show "list_all is_space (drop (index q) (p_text q))"
        using l by (simp add: Cons_nth_drop_Suc [symmetric])
    qed
    ultimately show ?thesis by (intro exI [of _ "index q"]) simp
  next
    case False
    then have l: "index q < length (p_text q)" by (auto simp: endOfText_def)
    let ?q = "take_step q"
    have t: "testSymbol (Lit '']'') 0 q = Inr (False, q)"
      using Suc.prems(1,2) by (rule testSymbol_absent)
    have step: "take_until testListValueEnd (Suc n) acc q
        = take_until testListValueEnd n (acc @ to_string (this_char q)) ?q"
      using False t
      by (simp add: testListValueEnd_def bnd_def gets_def One_nat_def)
    have "CHR '']'' \<notin> set (drop (index ?q) (p_text ?q))"
      using Suc.prems(2) set_drop_subset_set_drop [of "index q" "Suc (index q)" "p_text q"]
      by (auto simp: take_step_def)
    moreover have "\<not> jumpedEscapeSequence ?q" by (simp add: take_step_def)
    moreover have "length (p_text ?q) - index ?q < n"
      using Suc.prems(3) l by (simp add: take_step_def)
    ultimately obtain k where
      "take_until testListValueEnd n (acc @ to_string (this_char q)) ?q
               = Inl (SlashCommandParserError UnterminatedList (Some (int k)))"
      "index ?q \<le> k" "k \<le> max (length (p_text ?q)) (index ?q)"
      "k < length (p_text ?q) \<longrightarrow> list_all is_space (drop k (p_text ?q))"
      using Suc.IH [of ?q "acc @ to_string (this_char q)"] by blast
    then show ?thesis
      unfolding step using l by (intro exI [of _ k]) (auto simp: take_step_def)
  qed
qed

subsection \<open>The registration of variable names\<close>

lemma push_variableName_effect:
  assumes "push_variableName v p = Inr (u, q)" "scope p = Some s" "s < length (scopes p)"
  shows "variableNames (scopes q ! s) = variableNames (scopes p ! s) @ [v]"
    "executors q = executors p" "scope q = scope p" "length (scopes q) = length (scopes p)"
  using assms by (auto simp: push_variableName_def update_scope_def)

lemma push_variableNames_effect:
  assumes "push_variableNames vs p = Inr (u, q)" "scope p = Some s" "s < length (scopes p)"
  shows "variableNames (scopes q ! s) = variableNames (scopes p ! s) @ vs
       \<and> executors q = executors p"
  using assms
proof (induction vs arbitrary: p)
  case Nil
  then show ?case by (simp add: ret_def)
next
  case (Cons v vs)
  from Cons.prems(1) obtain p1 where 1: "push_variableName v p = Inr ((), p1)"
    and 2: "push_variableNames vs p1 = Inr (u, q)"
    by (auto simp: seq_Inr)
  note e = push_variableName_effect [OF 1 Cons.prems(2,3)]
  have "variableNames (scopes q ! s) = variableNames (scopes p1 ! s) @ vs
       \<and> executors q = executors p1"
    using 2 e Cons.prems by (intro Cons.IH) simp_all
  then show ?case using e by simp
qed

lemma push_variableName_suffix:
  assumes "push_variableName v p = Inr (u, q)" "scope p = Some s" "s < length (scopes p)"
  shows "suffix [v] (variableNames (scopes q ! s)) \<and> executors q = executors p"
  using push_variableName_effect(1,2) [OF assms] by (simp add: suffix_def)

lemma push_variableNames_suffix:
  assumes "push_variableNames vs p = Inr (u, q)" "scope p = Some s" "s < length (scopes p)"
  shows "suffix vs (variableNames (scopes q ! s)) \<and> executors q = executors p"
  using push_variableNames_effect [OF assms] by (simp add: suffix_def)

subsection \<open>Escaping in strict mode\<close>

text \<open>
  C1. Under the strict-escaping flag, the unnamed argument \<^verbatim>\<open>abc \| def\<close> of a command is
  the single value \<^verbatim>\<open>abc | def\<close>, with no statement break at the pipe, also when a command
  follows the pipe. With two backslashes before the pipe, the statement ends at the pipe
  with the value \<^verbatim>\<open>abc \\<close>, and \<^verbatim>\<open>/echo abc \\| /echo def\<close> is two statements with
  the values \<^verbatim>\<open>abc \\<close> and \<^verbatim>\<open>def\<close>.
\<close>

theorem strict_escaping_of_pipe:
  "statements (parse example_env 100 (''/echo abc '' @ [backslash] @ ''| def'')
      True strict_escaping None None new_parser)
     = Some [(''echo'', [Str ''abc | def''], Some True)]
   \<and> statements (parse example_env 100 (''/echo abc '' @ [backslash] @ ''| /echo def'')
      True strict_escaping None None new_parser)
     = Some [(''echo'', [Str ''abc | /echo def''], Some True)]
   \<and> statements (parse example_env 100 (''/echo abc '' @ [backslash, backslash] @ ''| def'')
      True strict_escaping None None new_parser)
     = Some [(''echo'', [Str (''abc '' @ [backslash])], Some True)]
   \<and> statements (parse example_env 100
      (''/echo abc '' @ [backslash, backslash] @ ''| /echo def'')
      True strict_escaping None None new_parser)
     = Some [(''echo'', [Str (''abc '' @ [backslash])], Some True),
             (''echo'', [Str ''def''], Some True)]"
  by code_simp

subsection \<open>Unterminated lists\<close>

text \<open>
  C3, as the code has it. When the list parser runs on a text that has no closing bracket
  after the opening one, it throws the unterminated-list error, with verification enabled
  and with verification disabled alike. The offset of the error is the end of the text,
  or a position before it from which only white space is left.
\<close>

theorem unterminated_list_throws:
  assumes "CHR '']'' \<notin> set (drop (Suc (index p)) (p_text p))"
    and "length (p_text p) - index p < n"
  shows "\<exists>k. parseListValue E n (p\<lparr>verifyCommandNames := v\<rparr>)
               = Inl (SlashCommandParserError UnterminatedList (Some (int k)))
           \<and> index p < k \<and> k \<le> max (length (p_text p)) (Suc (index p))
           \<and> (k < length (p_text p) \<longrightarrow> list_all is_space (drop k (p_text p)))"
proof -
  let ?q = "take_step (p\<lparr>verifyCommandNames := v\<rparr>)"
  have "\<exists>k. take_until testListValueEnd n (to_string (this_char (p\<lparr>verifyCommandNames := v\<rparr>))) ?q
               = Inl (SlashCommandParserError UnterminatedList (Some (int k)))
           \<and> index ?q \<le> k \<and> k \<le> max (length (p_text ?q)) (index ?q)
           \<and> (k < length (p_text ?q) \<longrightarrow> list_all is_space (drop k (p_text ?q)))"
    using assms by (intro take_until_list_end) (auto simp: take_step_def)
  then show ?thesis
    by (auto simp: parseListValue_def bnd_def take_step_def)
qed

text \<open>The list \<^verbatim>\<open>[1,2,3\<close>: the error is at offset 6, the length of the text, in both modes;
  and a parse of \<^verbatim>\<open>/echo x=[1,2,3\<close>, where the list is the value of a named argument, throws
  it at the length of that text in both modes.\<close>

theorem unterminated_list_throws_witness:
  "failure (parseListValue example_env 100
       ((inside_root example_env ''[1,2,3'' True None)\<lparr>verifyCommandNames := True\<rparr>))
     = Some (SlashCommandParserError UnterminatedList (Some (int (length ''[1,2,3''))))
   \<and> failure (parseListValue example_env 100
       ((inside_root example_env ''[1,2,3'' True None)\<lparr>verifyCommandNames := False\<rparr>))
     = Some (SlashCommandParserError UnterminatedList (Some (int (length ''[1,2,3''))))
   \<and> failure (parse example_env 100 ''/echo x=[1,2,3'' True None None None new_parser)
     = Some (SlashCommandParserError UnterminatedList (Some (int (length ''/echo x=[1,2,3''))))
   \<and> failure (parse example_env 100 ''/echo x=[1,2,3'' False None None None new_parser)
     = Some (SlashCommandParserError UnterminatedList (Some (int (length ''/echo x=[1,2,3''))))"
proof -
  let ?p = "inside_root example_env ''[1,2,3'' True None"
  have t: "p_text ?p = ''[1,2,3''" "index ?p = 0" by code_simp+
  have h: "CHR '']'' \<notin> set (drop (Suc (index ?p)) (p_text ?p))"
    "length (p_text ?p) - index ?p < 100"
    unfolding t by simp_all
  have k: "k = 6" if "0 < k" "k \<le> 6" "k < 6 \<longrightarrow> list_all is_space (drop k ''[1,2,3'')"
    for k :: nat
  proof (rule ccontr)
    assume "k \<noteq> 6"
    then have "k \<in> {1, 2, 3, 4, 5}" using that(1,2) by auto
    then show False using that(3) by (auto simp: is_space_def)
  qed
  have "failure (parseListValue example_env 100 (?p\<lparr>verifyCommandNames := v\<rparr>))
     = Some (SlashCommandParserError UnterminatedList (Some 6))" for v
    using unterminated_list_throws [OF h, of example_env v] k
    unfolding t by (auto simp: failure_def)
  moreover have
    "failure (parse example_env 100 ''/echo x=[1,2,3'' True None None None new_parser)
       = Some (SlashCommandParserError UnterminatedList (Some (int (length ''/echo x=[1,2,3''))))"
    "failure (parse example_env 100 ''/echo x=[1,2,3'' False None None None new_parser)
       = Some (SlashCommandParserError UnterminatedList (Some (int (length ''/echo x=[1,2,3''))))"
    by code_simp+
  ultimately show ?thesis by simp
qed

text \<open>Whether a text reaches the list parser can depend on the verification setting.
  Under strict escaping the text \<^verbatim>\<open>/echo {: /echo a="x :} " b=[1,2\<close> throws the
  unterminated-list error at its end when verification is enabled, and parses without an
  error when it is disabled: there the quoted value ends at the closure end, and the list
  is never parsed as a value. The bare text \<^verbatim>\<open>[1,2,3\<close> is no value for the parser and
  throws nothing in either mode.\<close>

theorem lenient_quote_hides_unterminated_list:
  "failure (parse example_env 100 quote_to_closure_end True strict_escaping None None new_parser)
     = Some (SlashCommandParserError UnterminatedList
              (Some (int (length quote_to_closure_end))))
   \<and> failure (parse example_env 100 quote_to_closure_end False strict_escaping None None
        new_parser) = None
   \<and> failure (parse example_env 100 ''[1,2,3'' True None None None new_parser) = None
   \<and> failure (parse example_env 100 ''[1,2,3'' False None None None new_parser) = None"
  by code_simp

subsection \<open>Unknown commands\<close>

text \<open>
  C4. \<^verbatim>\<open>bogus\<close> is not registered. With verification enabled, parsing \<^verbatim>\<open>/bogus\<close> throws
  the unknown-command error at offset 1, where the name starts. With verification
  disabled the parse succeeds with one Executor named \<^verbatim>\<open>bogus\<close> whose resolved command
  definition is missing.
\<close>

theorem unknown_command:
  "example_commands ''bogus'' = None
   \<and> failure (parse example_env 100 ''/bogus'' True None None None new_parser)
     = Some (SlashCommandParserError UnknownCommand (Some 1))
   \<and> take 5 (drop 1 ''/bogus'') = ''bogus''
   \<and> resolved (parse example_env 100 ''/bogus'' False None None None new_parser)
     = Some [(''bogus'', None)]"
  by code_simp

subsection \<open>Splitting of unnamed arguments\<close>

text \<open>With splitting and no split count, \<^verbatim>\<open>"hello world" extra\<close> gives the two elements
  \<^verbatim>\<open>hello world\<close>, marked as quoted, and \<^verbatim>\<open>extra\<close>. With splitting and split count 1,
  \<^verbatim>\<open>"a" b c\<close> gives the two elements \<^verbatim>\<open>a\<close> and \<^verbatim>\<open>b c\<close>; and \<^verbatim>\<open>"a" "b"c\<close> gives \<^verbatim>\<open>a\<close>
  and the rejoined \<^verbatim>\<open>"b"c\<close>, where the quotes of the quoted part are restored. The same
  holds through a parse of the commands \<^verbatim>\<open>pair\<close> (arity 2, splitting) and \<^verbatim>\<open>capped\<close>
  (splitting, split count 1).\<close>

lemma split_unnamed_arguments:
  "gathered (scan_unnamed example_env (parseClosure example_env 100 False) 100 True None False
      (inside_root example_env ([dquote] @ ''hello world'' @ [dquote] @ '' extra'') True None))
     = Some ([Str ''hello world'', Str ''extra''], [True, False])
   \<and> values_of (parseUnnamedArgument example_env (parseClosure example_env 100 False) 100
      True None False
      (inside_root example_env ([dquote] @ ''hello world'' @ [dquote] @ '' extra'') True None))
     = Some [Str ''hello world'', Str ''extra'']
   \<and> values_of (parseUnnamedArgument example_env (parseClosure example_env 100 False) 100
      True (Some 1) False
      (inside_root example_env ([dquote] @ ''a'' @ [dquote] @ '' b c'') True None))
     = Some [Str ''a'', Str ''b c'']
   \<and> values_of (parseUnnamedArgument example_env (parseClosure example_env 100 False) 100
      True (Some 1) False
      (inside_root example_env
         ([dquote] @ ''a'' @ [dquote] @ '' '' @ [dquote] @ ''b'' @ [dquote] @ ''c'') True None))
     = Some [Str ''a'', Str ([dquote] @ ''b'' @ [dquote] @ ''c'')]
   \<and> statements (parse example_env 100
      (''/pair '' @ [dquote] @ ''hello world'' @ [dquote] @ '' extra'')
      True None None None new_parser)
     = Some [(''pair'', [Str ''hello world'', Str ''extra''], Some True)]
   \<and> statements (parse example_env 100 (''/capped '' @ [dquote] @ ''a'' @ [dquote] @ '' b c'')
      True None None None new_parser)
     = Some [(''capped'', [Str ''a'', Str ''b c''], Some True)]"
  by code_simp

text \<open>
  C5. The quotes of a rejoined element are not always restored. The closure branch of
  \<^verbatim>\<open>parseUnnamedArgument\<close> pushes a value and no quoted mark, so after a closure the marks
  are one position behind the values, and the join reads the mark at the position of the
  value. With split count 1, \<^verbatim>\<open>x "b"c\<close> gives \<^verbatim>\<open>x\<close> and the rejoined \<^verbatim>\<open>"b"c\<close>, but
  \<^verbatim>\<open>{: :} "b"c\<close> gives the closure and \<^verbatim>\<open>bc\<close>: the quotes of the quoted \<^verbatim>\<open>b\<close> are lost.
\<close>

theorem quotes_lost_after_closure:
  "values_of (parseUnnamedArgument example_env (parseClosure example_env 100 False) 100
      True (Some 1) False
      (inside_root example_env (''x '' @ [dquote] @ ''b'' @ [dquote] @ ''c'') True None))
     = Some [Str ''x'', Str ([dquote] @ ''b'' @ [dquote] @ ''c'')]
   \<and> values_of (parseUnnamedArgument example_env (parseClosure example_env 100 False) 100
      True (Some 1) False
      (inside_root example_env (''{: :} '' @ [dquote] @ ''b'' @ [dquote] @ ''c'') True None))
     = Some [Closure 1, Str ''bc'']
   \<and> statements (parse example_env 100
      (''/capped {: :} '' @ [dquote] @ ''b'' @ [dquote] @ ''c'') True None None None new_parser)
     = Some [(''capped'', [Closure 1, Str ''bc''], Some True)]"
  by code_simp

subsection \<open>Variables registered while parsing\<close>

text \<open>
  The registration is the end of the block in which \<^verbatim>\<open>parseCommand\<close> parses the unnamed
  arguments of a command that has any. When that block returns for a \<^verbatim>\<open>/let\<close>, the last
  name of the current scope is the value of the named argument \<^verbatim>\<open>key\<close> if there is one,
  and else the first unnamed argument if it is a string; for an \<^verbatim>\<open>/import\<close> the last names
  of the scope are the destination names of the unnamed arguments, where \<^verbatim>\<open>a as b\<close> gives
  \<^verbatim>\<open>b\<close>. The Executor is that of the command, at position \<open>cmd\<close> of the store, and \<open>s\<close> is
  the current scope.
\<close>

lemma let_registers_destination:
  assumes run: "parse_unnamed_of_command E (parseClosure E k False) n cmd p = Inr (u, q)"
    and cur: "scope p = Some s" "s < length (scopes p)" "cmd < length (executors p)"
  shows "(ex_name (executors q ! cmd) = ''let'' \<longrightarrow>
           (case find (\<lambda>a. na_name a = ''key'') (namedArgumentList (executors q ! cmd)) of
              Some keyArg \<Rightarrow>
                (\<exists>v. na_value keyArg = Some v
                   \<and> suffix [Str (val_toString E v)] (variableNames (scopes q ! s)))
            | None \<Rightarrow>
                (case map ua_value (unnamedArgumentList (executors q ! cmd)) of
                   Str v # rest \<Rightarrow> suffix [Str v] (variableNames (scopes q ! s))
                 | _ \<Rightarrow> True)))
       \<and> (ex_name (executors q ! cmd) = ''import'' \<longrightarrow>
            suffix (import_names E (map ua_value (unnamedArgumentList (executors q ! cmd))))
              (variableNames (scopes q ! s)))"
proof -
  let ?x0 = "executors p ! cmd"
  from run obtain args p2 where
    a: "parseUnnamedArgument E (parseClosure E k False) n (split_of ?x0) (splitCount_of ?x0)
          (rawQuotes_of E ?x0) p = Inr (args, p2)"
    and b: "register_variables E cmd
              (update_executor cmd (\<lambda>x. x\<lparr>unnamedArgumentList := args,
                   endUnnamedArgs := Some (int (index p2))\<rparr>) p2) = Inr ((), q)"
    unfolding parse_unnamed_of_command_def
    by (auto simp: bnd_Inr seq_Inr gets_def set_executor_def modify_def)
  let ?p3 = "update_executor cmd (\<lambda>x. x\<lparr>unnamedArgumentList := args,
                   endUnnamedArgs := Some (int (index p2))\<rparr>) p2"
  let ?x = "executors ?p3 ! cmd"
  have f: "frame p p2"
    using a by (rule framedD [OF framed_parseUnnamedArgument [OF framed_parseClosure]])
  have l: "cmd < length (executors p2)" "s < length (scopes p2)" "scope p2 = Some s"
    using f cur by (auto simp: frame_def dest!: prefix_length_le)
  then have c3: "scope ?p3 = Some s" "s < length (scopes ?p3)"
    by (simp_all add: update_executor_def)
  have ua: "unnamedArgumentList ?x = args"
    using l by (simp add: update_executor_def)
  have main: "executors q = executors ?p3
      \<and> (ex_name ?x = ''let'' \<longrightarrow>
           (case find (\<lambda>a. na_name a = ''key'') (namedArgumentList ?x) of
              Some keyArg \<Rightarrow>
                (\<exists>v. na_value keyArg = Some v
                   \<and> suffix [Str (val_toString E v)] (variableNames (scopes q ! s)))
            | None \<Rightarrow>
                (case map ua_value (unnamedArgumentList ?x) of
                   Str v # rest \<Rightarrow> suffix [Str v] (variableNames (scopes q ! s))
                 | _ \<Rightarrow> True)))
       \<and> (ex_name ?x = ''import'' \<longrightarrow>
            suffix (import_names E (map ua_value (unnamedArgumentList ?x)))
              (variableNames (scopes q ! s)))"
    using b c3 unfolding register_variables_def
    by (auto simp: bnd_Inr gets_def ret_def throw_def
        split: if_splits option.splits list.splits val.splits
        dest!: push_variableName_suffix [OF _ c3] push_variableNames_suffix [OF _ c3])
  show ?thesis unfolding main [THEN conjunct1] by (rule main [THEN conjunct2])
qed

text \<open>The block for the arguments \<^verbatim>\<open>x 5\<close> of a \<^verbatim>\<open>/let\<close> registers \<^verbatim>\<open>x\<close>; so do the parses
  of \<^verbatim>\<open>/let x 5\<close>, of \<^verbatim>\<open>/let key=y 5\<close> with \<^verbatim>\<open>y\<close>, and of \<^verbatim>\<open>/import "a" as "b"\<close> with
  \<^verbatim>\<open>b\<close>.\<close>

lemma let_registers_destination_witness:
  "\<not> isl let_block_example
   \<and> variableNames (scopes (snd (projr let_block_example)) ! 0) = [Str ''x'']
   \<and> scope_names (parse example_env 100 ''/let x 5'' True None None None new_parser)
       = Some [Str ''x'']
   \<and> scope_names (parse example_env 100 ''/let key=y 5'' True None None None new_parser)
       = Some [Str ''y'']
   \<and> scope_names (parse example_env 100
        (''/import '' @ [dquote] @ ''a'' @ [dquote] @ '' as '' @ [dquote] @ ''b'' @ [dquote])
        True None None None new_parser)
       = Some [Str ''b'']"
proof -
  have 1: "\<not> isl let_block_example" by code_simp
  have 2: "scope let_block_state = Some 0" "0 < length (scopes let_block_state)"
    "0 < length (executors let_block_state)"
    by code_simp+
  have 3: "ex_name (executors (snd (projr let_block_example)) ! 0) = ''let''"
    "find (\<lambda>a. na_name a = ''key'')
       (namedArgumentList (executors (snd (projr let_block_example)) ! 0)) = None"
    "map ua_value (unnamedArgumentList (executors (snd (projr let_block_example)) ! 0))
       = [Str ''x'', Str ''5'']"
    "length (variableNames (scopes (snd (projr let_block_example)) ! 0)) = 1"
    by code_simp+
  from let_registers_destination [OF result_cases [OF 1, unfolded let_block_example_def] 2]
  have "suffix [Str ''x''] (variableNames (scopes (snd (projr let_block_example)) ! 0))"
    using 3(1-3) by (simp add: let_block_example_def)
  then have a: "variableNames (scopes (snd (projr let_block_example)) ! 0) = [Str ''x'']"
    using 3(4) by (auto simp: suffix_def)
  have b: "scope_names (parse example_env 100 ''/let x 5'' True None None None new_parser)
       = Some [Str ''x'']"
    "scope_names (parse example_env 100 ''/let key=y 5'' True None None None new_parser)
       = Some [Str ''y'']"
    "scope_names (parse example_env 100
        (''/import '' @ [dquote] @ ''a'' @ [dquote] @ '' as '' @ [dquote] @ ''b'' @ [dquote])
        True None None None new_parser)
       = Some [Str ''b'']"
    by code_simp+
  show ?thesis using 1 a b by simp
qed

text \<open>The name goes to the scope that is current: a \<^verbatim>\<open>/let\<close> inside a nested closure
  registers in the scope of that closure.\<close>

lemma let_and_import_register_names:
  "scope_names (parse example_env 100 ''/let x 5'' True None None None new_parser)
     = Some [Str ''x'']
   \<and> scope_names (parse example_env 100 ''/let key=y 5'' True None None None new_parser)
     = Some [Str ''y'']
   \<and> scope_names (parse example_env 100
        (''/import '' @ [dquote] @ ''a'' @ [dquote] @ '' as '' @ [dquote] @ ''b'' @ [dquote])
        True None None None new_parser)
     = Some [Str ''b'']
   \<and> all_scope_names (parse example_env 100 ''/echo {: /let z 1 :} | /let x 2''
        True None None None new_parser)
     = Some [[Str ''x''], [Str ''z'']]"
  by code_simp

text \<open>
  C8. Not every \<^verbatim>\<open>/let\<close> statement registers its destination. \<^verbatim>\<open>parseCommand\<close> looks for
  the named argument \<^verbatim>\<open>key\<close> only inside the block that parses the unnamed arguments, so a
  \<^verbatim>\<open>/let\<close> with no unnamed argument never reaches the registration: \<^verbatim>\<open>/let key=y\<close> parses to
  one Executor and registers nothing, while \<^verbatim>\<open>/let y\<close> and \<^verbatim>\<open>/let key=y 5\<close> register \<^verbatim>\<open>y\<close>.
\<close>

theorem let_with_key_only_registers_nothing:
  "statements (parse example_env 100 ''/let key=y'' True None None None new_parser)
     = Some [(''let'', [], Some True)]
   \<and> scope_names (parse example_env 100 ''/let key=y'' True None None None new_parser)
     = Some []
   \<and> scope_names (parse example_env 100 ''/let y'' True None None None new_parser)
     = Some [Str ''y'']
   \<and> scope_names (parse example_env 100 ''/let key=y 5'' True None None None new_parser)
     = Some [Str ''y'']"
  by code_simp

subsection \<open>The closure index\<close>

text \<open>
  C6, as the code has it. After a successful parse the closure index has one entry for
  each closure that the parse has made, the root closure included. The entry of the root
  closure comes first, starts at offset 1 and ends one before the final position, which is
  at least the length of the text: its end is below its start for a text of fewer than two
  characters. Every other entry is complete and ends at least two offsets after its start.
\<close>

theorem closure_index_spans:
  assumes "parse E n t verify given a d p = Inr (c, q)"
  shows "length (closureIndex q) + length (closures p) = length (closures q)
       \<and> hd (closureIndex q) = (1, Some (int (index q) - 1)) \<and> length t \<le> index q
       \<and> list_all span_ok (tl (closureIndex q))"
proof -
  let ?p = "init_parse E t verify given a d p"
  from parseClosure_effect [OF assms [unfolded parse_def]] obtain m
    where "parseClosure_body E (parseClosure E m False) m True ?p = Inr (c, q)" ..
  note b = parseClosure_body_effect [OF framed_parseClosure this]
  have i: "closureIndex ?p = []" "index ?p = 0" "scope ?p = None" "p_text ?p = t"
    "closures ?p = closures p"
    by (simp_all add: init_parse_def)
  from b(7) obtain ys where "closureIndex q = [(1, Some (int (index q) - 1))] @ ys"
    "list_all span_ok ys" "Suc (length ys + length (closures p)) = length (closures q)"
    unfolding i by auto
  then show ?thesis using b(10) i by simp
qed

text \<open>The parse of \<^verbatim>\<open>/echo {: /echo a :} | /echo {: :}\<close> makes three closures; the index
  holds the span of the root and the spans of the two nested closures.\<close>

theorem closure_index_spans_witness:
  "\<not> isl span_example
   \<and> closureIndex (snd (projr span_example)) = [(1, Some 32), (7, Some 18), (29, Some 32)]
   \<and> length (closures (snd (projr span_example))) = 3
   \<and> index (snd (projr span_example)) = 33"
proof -
  have 1: "\<not> isl span_example" by code_simp
  have 2: "tl (closureIndex (snd (projr span_example))) = [(7, Some 18), (29, Some 32)]"
    "index (snd (projr span_example)) = 33"
    by code_simp+
  from closure_index_spans [OF result_cases [OF 1, unfolded span_example_def]]
  show ?thesis using 1 2
    by (cases "closureIndex (snd (projr span_example))")
      (simp_all add: span_example_def new_parser_def)
qed

text \<open>The root entry of the one-character text \<^verbatim>\<open>a\<close> starts at 1 and ends at 0.\<close>

theorem root_span_of_short_text:
  "spans (parse example_env 100 ''a'' True None None None new_parser) = Some [(1, Some 0)]"
  by code_simp

subsection \<open>Flag snapshots\<close>




subsection \<open>The current scope and closure\<close>

text \<open>
  C10. When \<^verbatim>\<open>parseClosure\<close> returns, for the root or for a nested closure, the current
  scope is the scope that was current at the call, the scope of the returned closure is a
  child of it, and the current closure is the closure of the caller if there was one, and
  the returned closure otherwise.
\<close>

theorem parseClosure_restores_scope:
  assumes "parseClosure E n isRoot p = Inr (c, q)"
  shows "scope q = scope p
       \<and> closure q = (case closure p of None \<Rightarrow> Some c | Some x \<Rightarrow> Some x)
       \<and> sc_parent (scopes q ! cl_scope (closures q ! c)) = scope p"
proof -
  from parseClosure_effect [OF assms] obtain m
    where "parseClosure_body E (parseClosure E m False) m isRoot p = Inr (c, q)" ..
  note b = parseClosure_body_effect [OF framed_parseClosure this]
  show ?thesis using b(4,5,9) by simp
qed

text \<open>The closure \<^verbatim>\<open>{: /echo a :}\<close> parsed inside the root closure: scope 0 and closure 0,
  those of the root, are current again afterwards.\<close>

theorem parseClosure_restores_scope_witness:
  "\<not> isl nested_example
   \<and> scope (snd (projr nested_example)) = Some 0
   \<and> closure (snd (projr nested_example)) = Some 0
   \<and> sc_parent (scopes (snd (projr nested_example))
        ! cl_scope (closures (snd (projr nested_example)) ! fst (projr nested_example))) = Some 0"
proof -
  have 1: "\<not> isl nested_example" by code_simp
  have 2: "scope (inside_root example_env ''{: /echo a :}'' True None) = Some 0"
    "closure (inside_root example_env ''{: /echo a :}'' True None) = Some 0"
    by code_simp+
  from parseClosure_restores_scope [OF result_cases [OF 1, unfolded nested_example_def]]
  show ?thesis using 1 2 by (simp add: nested_example_def)
qed

subsection \<open>Parsing the same text twice\<close>

text \<open>The two parses are compared through a simulation: every parsing method takes two
  states that differ in the ids only to like results, as long as the rewrite of the getter
  macros stays off.\<close>

lemma forget_ids_eq:
  "forget_ids p = forget_ids p' \<longleftrightarrow>
     p' = over (parserContext p') (uuids p') (closures p') p
     \<and> map forget_closure (closures p') = map forget_closure (closures p)"
  by (cases p, cases p') (auto simp: forget_ids_def over_def)

lemma flag_ahead_sublist: "flag_ahead p \<Longrightarrow> sublist flag_text (p_text p)"
  unfolding flag_ahead_def by (metis sublist_drop sublist_order.order_trans)

lemma plain_frame: "frame p q \<Longrightarrow> plain p \<Longrightarrow> plain q"
  by (auto simp: frame_def plain_def dest: flag_ahead_sublist)

named_theorems sm

lemma simI:
  assumes "\<And>p p'. plain p \<Longrightarrow> forget_ids p = forget_ids p' \<Longrightarrow> alike (a p) (b p')"
  shows "sim a b"
  using assms unfolding sim_def by blast

lemma simD: "sim a b \<Longrightarrow> plain p \<Longrightarrow> forget_ids p = forget_ids p' \<Longrightarrow> alike (a p) (b p')"
  unfolding sim_def by blast

lemma alike_Inr:
  "alike (Inr (x, q)) r' \<longleftrightarrow> plain q \<and> (\<exists>q'. r' = Inr (x, q') \<and> forget_ids q = forget_ids q')"
  by (simp add: alike_def)

lemma alike_Inl: "alike (Inl e) r' \<longleftrightarrow> r' = Inl e"
  by (simp add: alike_def)

lemma over_self: "over (parserContext p) (uuids p) (closures p) p = p"
  by (simp add: over_def)

text \<open>Actions that neither read nor write the ids and the closures.\<close>

lemma sim_blind':
  assumes c: "\<And>p c u cs. a (over c u cs p) = on_state (over c u cs) (a p)"
    and f: "\<And>p x q. a p = Inr (x, q) \<Longrightarrow> plain p \<Longrightarrow> plain q"
  shows "sim a a"
proof (rule simI)
  fix p p' assume pl: "plain p" and e: "forget_ids p = forget_ids p'"
  from e have p': "p' = over (parserContext p') (uuids p') (closures p') p"
    and m: "map forget_closure (closures p') = map forget_closure (closures p)"
    by (simp_all add: forget_ids_eq)
  have a': "a p' = on_state (over (parserContext p') (uuids p') (closures p')) (a p)"
    by (subst p', rule c)
  show "alike (a p) (a p')"
  proof (cases "a p")
    case (Inl e)
    then show ?thesis unfolding a' by (simp add: on_state_def alike_def)
  next
    case (Inr r)
    obtain x q where r: "r = (x, q)" by (cases r)
    have 1: "plain q" using Inr r pl by (auto intro: f)
    have "a (over (parserContext p) (uuids p) (closures p) p)
        = on_state (over (parserContext p) (uuids p) (closures p)) (a p)" by (rule c)
    then have "Inr (x, q) = on_state (over (parserContext p) (uuids p) (closures p)) (Inr (x, q))"
      unfolding over_self Inr r .
    then have "q = over (parserContext p) (uuids p) (closures p) q"
      by (simp add: on_state_def)
    then have "closures q = closures (over (parserContext p) (uuids p) (closures p) q)"
      by (rule arg_cong)
    then have "closures q = closures p" by (simp add: over_def)
    then have fq: "forget_ids q = forget_ids (over (parserContext p') (uuids p') (closures p') q)"
      using m by (simp add: forget_ids_def over_def)
    have ex: "a p' = Inr (x, over (parserContext p') (uuids p') (closures p') q)"
      unfolding a' Inr r by (simp add: on_state_def)
    show ?thesis unfolding Inr r alike_Inr using 1 ex fq by blast
  qed
qed

lemma sim_blind:
  assumes c: "\<And>p c u cs. a (over c u cs p) = on_state (over c u cs) (a p)"
    and f: "framed a"
  shows "sim a a"
  using c by (rule sim_blind') (blast intro: plain_frame dest: framedD [OF f])

lemma sim_ret [sm]: "sim (ret x) (ret x)"
  by (rule simI) (simp add: ret_def alike_def)

lemma sim_throw [sm]: "sim (throw e) (throw e)"
  by (rule simI) (simp add: throw_def alike_def)

lemma sim_bnd [sm]:
  assumes "sim m m'" "\<And>x. sim (f x) (f' x)" shows "sim (bnd m f) (bnd m' f')"
proof (rule simI)
  fix p p' assume pl: "plain p" and e: "forget_ids p = forget_ids p'"
  note a = simD [OF assms(1) pl e]
  show "alike (bnd m f p) (bnd m' f' p')"
  proof (cases "m p")
    case (Inl err)
    then show ?thesis using a by (simp add: bnd_def alike_def)
  next
    case (Inr r)
    obtain x q where r: "r = (x, q)" by (cases r)
    from a obtain q' where q: "plain q" "m' p' = Inr (x, q')" "forget_ids q = forget_ids q'"
      unfolding Inr r alike_Inr by blast
    show ?thesis
      using simD [OF assms(2) q(1,3), of x] by (simp add: bnd_def Inr r q(2))
  qed
qed

lemma sim_seq [sm]: "sim m m' \<Longrightarrow> sim k k' \<Longrightarrow> sim (seq m k) (seq m' k')"
  unfolding seq_def[abs_def] by (intro sm; assumption)

lemma sim_if [sm]: "sim a a' \<Longrightarrow> sim b b' \<Longrightarrow> sim (if c then a else b) (if c then a' else b')"
  by simp

lemma sim_case_option [sm]:
  "sim a a' \<Longrightarrow> (\<And>y. sim (b y) (b' y))
   \<Longrightarrow> sim (case x of None \<Rightarrow> a | Some y \<Rightarrow> b y) (case x of None \<Rightarrow> a' | Some y \<Rightarrow> b' y)"
  by (cases x) auto

lemma sim_case_list [sm]:
  "sim a a' \<Longrightarrow> (\<And>y ys. sim (b y ys) (b' y ys))
   \<Longrightarrow> sim (case x of [] \<Rightarrow> a | y # ys \<Rightarrow> b y ys) (case x of [] \<Rightarrow> a' | y # ys \<Rightarrow> b' y ys)"
  by (cases x) auto

lemma sim_case_val [sm]:
  "(\<And>y. sim (a y) (a' y)) \<Longrightarrow> (\<And>y. sim (b y) (b' y))
   \<Longrightarrow> sim (case x of Str y \<Rightarrow> a y | Closure y \<Rightarrow> b y) (case x of Str y \<Rightarrow> a' y | Closure y \<Rightarrow> b' y)"
  by (cases x) auto

lemma sim_Let [sm]: "(\<And>x. sim (f x) (f' x)) \<Longrightarrow> sim (Let v f) (Let v f')"
  by simp

lemma sim_orElse [sm]: "sim a a' \<Longrightarrow> sim b b' \<Longrightarrow> sim (orElse a b) (orElse a' b')"
  unfolding orElse_def[abs_def] by (intro sm; assumption)

lemma blind_gets:
  "(\<And>p c u cs. f (over c u cs p) = f p) \<Longrightarrow> sim (gets f) (gets f)"
  by (rule sim_blind) (simp_all add: gets_def on_state_def framed_gets)

lemma blind_modify:
  "(\<And>p c u cs. t (over c u cs p) = over c u cs (t p)) \<Longrightarrow> (\<And>p. plain p \<Longrightarrow> plain (t p))
   \<Longrightarrow> sim (modify t) (modify t)"
  by (rule sim_blind') (auto simp add: modify_def on_state_def)

lemma over_fields [simp]:
  "p_text (over c u cs p) = p_text p" "index (over c u cs p) = index p"
  "flags (over c u cs p) = flags p" "verifyCommandNames (over c u cs p) = verifyCommandNames p"
  "debugController (over c u cs p) = debugController p"
  "abortController (over c u cs p) = abortController p"
  "scope (over c u cs p) = scope p" "closure (over c u cs p) = closure p"
  "jumpedEscapeSequence (over c u cs p) = jumpedEscapeSequence p"
  "closureIndex (over c u cs p) = closureIndex p" "macroIndex (over c u cs p) = macroIndex p"
  "commandIndex (over c u cs p) = commandIndex p" "scopeIndex (over c u cs p) = scopeIndex p"
  "scopes (over c u cs p) = scopes p" "executors (over c u cs p) = executors p"
  "closures (over c u cs p) = cs" "parserContext (over c u cs p) = c" "uuids (over c u cs p) = u"
  by (simp_all add: over_def)

lemma this_char_over [simp]: "this_char (over c u cs p) = this_char p"
  by (simp add: this_char_def)

lemma scanner_over [simp]:
  "behind (over c u cs p) = behind p" "ahead (over c u cs p) = ahead p"
  "endOfText (over c u cs p) = endOfText p"
  "testNamedArgument (over c u cs p) = testNamedArgument p"
  by (simp_all add: behind_def ahead_def endOfText_def testNamedArgument_def)

lemma sim_gets [sm]:
  "(\<And>p c u cs. f (over c u cs p) = f p) \<Longrightarrow> sim (gets f) (gets f)"
  by (rule blind_gets)

lemma sim_throw_here [sm]: "sim (throw_here k) (throw_here k)"
  unfolding throw_here_def[abs_def] by (intro sm) simp

lemma take_step_over: "take_step (over c u cs p) = over c u cs (take_step p)"
  by (cases p) (simp add: take_step_def over_def)

lemma take_js_over: "take_js k (over c u cs p) = on_state (over c u cs) (take_js k p)"
  by (induction k p rule: take_js.induct) (auto simp: on_state_def take_step_over)

lemma sim_take_js [sm]: "sim (take_js k) (take_js k)"
  by (rule sim_blind [OF take_js_over framed_take_js])

lemma discardWhitespace_over: "discardWhitespace (over c u cs p) = over c u cs (discardWhitespace p)"
proof (induction p rule: discardWhitespace.induct)
  case (1 p)
  have t: "test_space (this_char (over c u cs p)) = test_space (this_char p)"
    by (simp add: this_char_def over_def)
  show ?case
  proof (cases "test_space (this_char p)")
    case True
    have "(take_step (over c u cs p))\<lparr>jumpedEscapeSequence := False\<rparr>
        = over c u cs ((take_step p)\<lparr>jumpedEscapeSequence := False\<rparr>)"
      by (cases p) (simp add: take_step_def over_def)
    then show ?thesis
      using 1 True t
      by (subst discardWhitespace.simps, subst (2) discardWhitespace.simps) simp
  next
    case False
    then show ?thesis
      using t by (subst discardWhitespace.simps, subst (2) discardWhitespace.simps) simp
  qed
qed

lemma sim_discardWhitespace [sm]: "sim (modify discardWhitespace) (modify discardWhitespace)"
  by (rule blind_modify [OF discardWhitespace_over])
     (blast intro: plain_frame frame_discardWhitespace)

lemma testSymbol_over:
  "testSymbol s off (over c u cs p) = on_state (over c u cs) (testSymbol s off p)"
  by (cases p)
     (simp add: testSymbol_def testSymbolLooseyGoosey_def Let_def jump_def on_state_def over_def)

lemma sim_testSymbol [sm]: "sim (testSymbol s off) (testSymbol s off)"
  by (rule sim_blind [OF testSymbol_over framed_testSymbol])


lemma framed_plain: "framed a \<Longrightarrow> a p = Inr (x, q) \<Longrightarrow> plain p \<Longrightarrow> plain q"
  by (blast intro: plain_frame dest: framedD)

lemma update_executor_over:
  "update_executor k f (over c u cs p) = over c u cs (update_executor k f p)"
  by (cases p) (simp add: update_executor_def over_def)

lemma sim_set_executor [sm]: "sim (set_executor k f) (set_executor k f)"
proof (rule simI)
  fix p p' assume pl: "plain p" and e: "forget_ids p = forget_ids p'"
  from e have p': "p' = over (parserContext p') (uuids p') (closures p') p"
    and m: "map forget_closure (closures p') = map forget_closure (closures p)"
    by (simp_all add: forget_ids_eq)
  have "plain (update_executor k f p)" using pl by (simp add: plain_def update_executor_def)
  moreover have "forget_ids (update_executor k f p) = forget_ids (update_executor k f p')"
    by (subst p') (simp add: update_executor_over forget_ids_eq m update_executor_def)
  ultimately show "alike (set_executor k f p) (set_executor k f p')"
    by (simp add: set_executor_def modify_def alike_def)
qed

lemma sim_alloc_executor [sm]: "sim (alloc_executor e) (alloc_executor e)"
proof (rule simI)
  fix p p' assume pl: "plain p" and e: "forget_ids p = forget_ids p'"
  from e have p': "p' = over (parserContext p') (uuids p') (closures p') p"
    and m: "map forget_closure (closures p') = map forget_closure (closures p)"
    by (simp_all add: forget_ids_eq)
  have 1: "plain (p\<lparr>executors := executors p @ [e]\<rparr>)" using pl by (simp add: plain_def)
  have 2: "forget_ids (p\<lparr>executors := executors p @ [e]\<rparr>)
         = forget_ids (p'\<lparr>executors := executors p' @ [e]\<rparr>)"
    by (subst (1 2) p') (cases p, simp add: forget_ids_def over_def m)
  have 3: "length (executors p') = length (executors p)" by (subst p') simp
  show "alike (alloc_executor e p) (alloc_executor e p')"
    using 1 2 3 by (simp add: alloc_executor_def alike_def)
qed


lemma sim_index_command [sm]: "sim (index_command k) (index_command k)"
proof (rule sim_blind [OF _ framed_index_command])
  fix p c u cs
  show "index_command k (over c u cs p) = on_state (over c u cs) (index_command k p)"
    by (cases p) (simp add: index_command_def over_def on_state_def split: option.splits)
qed

lemma sim_push_variableName [sm]: "sim (push_variableName v) (push_variableName v)"
proof (rule sim_blind [OF _ framed_push_variableName])
  fix p c u cs
  show "push_variableName v (over c u cs p) = on_state (over c u cs) (push_variableName v p)"
    by (cases p)
       (simp add: push_variableName_def update_scope_def over_def on_state_def
          split: option.splits)
qed

lemma sim_index_value_macros [sm]:
  "sim (modify (index_value_macros E v)) (modify (index_value_macros E v))"
proof (rule blind_modify)
  fix p c u cs
  show "index_value_macros E v (over c u cs p) = over c u cs (index_value_macros E v p)"
    by (cases p) (simp add: index_value_macros_def indexMacros_def over_def)
  show "plain p \<Longrightarrow> plain (index_value_macros E v p)" for p
    by (simp add: plain_def index_value_macros_def indexMacros_def)
qed

lemma sim_testClosureEnd [sm]: "sim testClosureEnd testClosureEnd"
proof (rule sim_blind [OF _ framed_testClosureEnd])
  fix p c u cs
  show "testClosureEnd (over c u cs p) = on_state (over c u cs) (testClosureEnd p)"
    by (auto simp add: testClosureEnd_def testSymbol_over on_state_def split: option.splits)
qed

lemma sim_testBlockCommentEnd [sm]: "sim testBlockCommentEnd testBlockCommentEnd"
proof (rule sim_blind [OF _ framed_testBlockCommentEnd])
  fix p c u cs
  show "testBlockCommentEnd (over c u cs p) = on_state (over c u cs) (testBlockCommentEnd p)"
    by (simp add: testBlockCommentEnd_def testSymbol_over on_state_def)
qed

lemma sim_testCommentEnd [sm]: "sim testCommentEnd testCommentEnd"
proof (rule sim_blind [OF _ framed_testCommentEnd])
  fix p c u cs
  show "testCommentEnd (over c u cs p) = on_state (over c u cs) (testCommentEnd p)"
    by (simp add: testCommentEnd_def testSymbol_over on_state_def)
qed

lemma nth_forget:
  "map forget_closure xs = map forget_closure ys
   \<Longrightarrow> forget_closure (xs ! i) = forget_closure (ys ! i)"
proof (induction xs arbitrary: ys i)
  case Nil
  then show ?case by simp
next
  case (Cons x xs)
  then obtain y ys' where "ys = y # ys'" by (cases ys) auto
  then show ?case using Cons by (cases i) auto
qed

lemma cl_scope_forget: "cl_scope (forget_closure x) = cl_scope x"
  by (simp add: forget_closure_def)

lemma nth_cl_scope:
  "map forget_closure xs = map forget_closure ys \<Longrightarrow> cl_scope (xs ! i) = cl_scope (ys ! i)"
  by (metis nth_forget cl_scope_forget)

lemma sim_update_closure [sm]:
  assumes "\<And>x. forget_closure (f x) = f (forget_closure x)"
  shows "sim (modify (update_closure k f)) (modify (update_closure k f))"
proof (rule simI)
  fix p p' assume pl: "plain p" and e: "forget_ids p = forget_ids p'"
  from e have p': "p' = over (parserContext p') (uuids p') (closures p') p"
    and m: "map forget_closure (closures p') = map forget_closure (closures p)"
    by (simp_all add: forget_ids_eq)
  have l: "length (closures p') = length (closures p)" using m by (rule map_eq_imp_length_eq)
  have "map forget_closure ((closures p')[k := f (closures p' ! k)])
      = map forget_closure ((closures p)[k := f (closures p ! k)])"
    using m l nth_forget [OF m, of k] by (simp add: map_update assms)
  then have "forget_ids (update_closure k f p) = forget_ids (update_closure k f p')"
    by (subst p') (cases p, simp add: update_closure_def forget_ids_def over_def)
  moreover have "plain (update_closure k f p)" using pl by (simp add: plain_def update_closure_def)
  ultimately show "alike (modify (update_closure k f) p) (modify (update_closure k f) p')"
    by (simp add: modify_def alike_def)
qed

lemma sim_push_executor [sm]: "sim (push_executor cl cmd) (push_executor cl cmd)"
  unfolding push_executor_def[abs_def] by (rule sim_update_closure) (simp add: forget_closure_def)

lemma forget_idsE:
  assumes "forget_ids p = forget_ids p'"
  obtains c u cs where "p' = over c u cs p"
    "map forget_closure cs = map forget_closure (closures p)"
  using assms unfolding forget_ids_eq by blast

lemma forget_ids_over:
  "forget_ids (over c u cs p) = forget_ids q
   \<longleftrightarrow> forget_ids (p\<lparr>closures := cs\<rparr>) = forget_ids q"
  by (cases p) (simp add: forget_ids_def over_def)

lemma sim_new_closure [sm]: "sim new_closure new_closure"
proof (rule simI)
  fix p p' assume pl: "plain p" and e: "forget_ids p = forget_ids p'"
  from e obtain c u cs where p': "p' = over c u cs p"
    and m: "map forget_closure cs = map forget_closure (closures p)"
    by (rule forget_idsE)
  have l: "length cs = length (closures p)" using m by (rule map_eq_imp_length_eq)
  show "alike (new_closure p) (new_closure p')"
    unfolding p' using pl
    by (cases p) (simp add: new_closure_def alike_def plain_def forget_ids_def over_def
        forget_closure_def m l)
qed


text \<open>The collaborators other than the source of identifiers.\<close>

lemma macro_entry_env: "macro_entry (E\<lparr>uuidv4 := U\<rparr>) = macro_entry E"
  by (intro ext) (simp add: macro_entry_def)

lemma indexMacros_loop_env:
  "indexMacros_loop (E\<lparr>uuidv4 := U\<rparr>) offset t i = indexMacros_loop E offset t i"
proof (induction E offset t i rule: indexMacros_loop.induct)
  case (1 E offset t i)
  show ?case
    using 1
    by (subst indexMacros_loop.simps [of E], subst indexMacros_loop.simps [of "E\<lparr>uuidv4 := U\<rparr>"])
       (simp add: macro_entry_env)
qed

lemma val_toString_env: "val_toString (E\<lparr>uuidv4 := U\<rparr>) = val_toString E"
  by (intro ext) (simp add: val_toString_def split: val.splits)

lemma import_names_env: "import_names (E\<lparr>uuidv4 := U\<rparr>) xs = import_names E xs"
  by (induction E xs rule: import_names.induct) (simp_all add: val_toString_env)

lemma env_fields:
  "commands (E\<lparr>uuidv4 := U\<rparr>) = commands E"
  "isTrueBoolean (E\<lparr>uuidv4 := U\<rparr>) = isTrueBoolean E"
  "isFalseBoolean (E\<lparr>uuidv4 := U\<rparr>) = isFalseBoolean E"
  "power_user_flags (E\<lparr>uuidv4 := U\<rparr>) = power_user_flags E"
  "experimental_macro_engine (E\<lparr>uuidv4 := U\<rparr>) = experimental_macro_engine E"
  by simp_all

lemma index_value_macros_env: "index_value_macros (E\<lparr>uuidv4 := U\<rparr>) = index_value_macros E"
  by (simp add: fun_eq_iff index_value_macros_def indexMacros_def indexMacros_loop_env)

lemma join_overflow_env: "join_overflow (E\<lparr>uuidv4 := U\<rparr>) = join_overflow E"
  unfolding join_overflow_def[abs_def] val_toString_env by (rule refl)

lemma finish_list_env: "finish_list (E\<lparr>uuidv4 := U\<rparr>) = finish_list E"
  unfolding finish_list_def[abs_def] join_overflow_env by (rule refl)

lemma rawQuotes_of_env: "rawQuotes_of (E\<lparr>uuidv4 := U\<rparr>) = rawQuotes_of E"
  unfolding rawQuotes_of_def[abs_def] val_toString_env env_fields by (rule refl)

lemma import_names_env': "import_names (E\<lparr>uuidv4 := U\<rparr>) = import_names E"
  by (rule ext) (rule import_names_env)

lemmas pure_env = index_value_macros_env finish_list_env rawQuotes_of_env import_names_env'
  val_toString_env env_fields

text \<open>Values and arguments.\<close>

lemma sim_tests [sm]:
  "sim testClosure testClosure" "sim testCommandEnd testCommandEnd"
  "sim testQuotedValue testQuotedValue" "sim testListValue testListValue"
  "sim testValue testValue" "sim testValueEnd testValueEnd"
  "sim testBlockComment testBlockComment" "sim testComment testComment"
  "sim testRunShorthand testRunShorthand" "sim testBreakPoint testBreakPoint"
  "sim testBreak testBreak" "sim testCommand testCommand" "sim take_escaped take_escaped"
  "sim testListValueEnd testListValueEnd" "sim testQuotedValueEnd testQuotedValueEnd"
  unfolding testClosure_def[abs_def] testCommandEnd_def[abs_def] testQuotedValue_def[abs_def]
    testListValue_def[abs_def] testValue_def[abs_def] testValueEnd_def[abs_def]
    testBlockComment_def[abs_def] testComment_def[abs_def]
    testRunShorthand_def[abs_def] testBreakPoint_def[abs_def] testBreak_def[abs_def]
    testCommand_def[abs_def] take_escaped_def[abs_def] testListValueEnd_def[abs_def]
    testQuotedValueEnd_def[abs_def]
  by ((intro sm; simp)+)

lemma sim_take_until [sm]: "sim test test' \<Longrightarrow> sim (take_until test n v) (take_until test' n v)"
proof (induction n arbitrary: v)
  case 0
  show ?case unfolding take_until.simps(1)[abs_def] by (intro sm)
next
  case (Suc n)
  show ?case unfolding take_until.simps(2)[abs_def] by (intro sm Suc)
qed

text \<open>While the rewrite of the getter macros is off, no identifier is drawn.\<close>

lemma sim_replace_if_flagged [sm]:
  "sim (replace_if_flagged E v) (replace_if_flagged E' v)"
proof (rule simI)
  fix p p' assume pl: "plain p" and e: "forget_ids p = forget_ids p'"
  from e obtain c u cs where p': "p' = over c u cs p" by (rule forget_idsE)
  show "alike (replace_if_flagged E v p) (replace_if_flagged E' v p')"
    using pl e unfolding p'
    by (simp add: replace_if_flagged_def bnd_def gets_def ret_def alike_def plain_def)
qed

lemma sim_finish_value [sm]: "sim (finish_value E v) (finish_value (E\<lparr>uuidv4 := U\<rparr>) v)"
  unfolding finish_value_def[abs_def] pure_env by (intro sm)

lemma sim_values [sm]:
  "sim (parseQuotedValue E n) (parseQuotedValue (E\<lparr>uuidv4 := U\<rparr>) n)"
  "sim (parseListValue E n) (parseListValue (E\<lparr>uuidv4 := U\<rparr>) n)"
  "sim (parseValue E n) (parseValue (E\<lparr>uuidv4 := U\<rparr>) n)"
  unfolding parseQuotedValue_def[abs_def] parseListValue_def[abs_def] parseValue_def[abs_def]
  by (intro sm)+

lemma sim_named_value [sm]:
  "sim pc pc' \<Longrightarrow> sim (named_value E pc n) (named_value (E\<lparr>uuidv4 := U\<rparr>) pc' n)"
  unfolding named_value_def[abs_def] by (intro sm)

lemma sim_parseNamedArgument [sm]:
  "sim pc pc' \<Longrightarrow> sim (parseNamedArgument E pc n) (parseNamedArgument (E\<lparr>uuidv4 := U\<rparr>) pc' n)"
  unfolding parseNamedArgument_def[abs_def] by (intro sm; simp)

lemma sim_namedArgument_loop [sm]:
  "sim pc pc' \<Longrightarrow> (\<And>arg. sim (after arg) (after arg))
   \<Longrightarrow> sim (namedArgument_loop E pc after n) (namedArgument_loop (E\<lparr>uuidv4 := U\<rparr>) pc' after n)"
proof (induction n)
  case 0
  show ?case unfolding namedArgument_loop.simps(1)[abs_def] by (intro sm)
next
  case (Suc n)
  show ?case unfolding namedArgument_loop.simps(2)[abs_def] by (intro sm Suc; simp)
qed

lemma sim_quoted_element [sm]:
  "sim (quoted_element E n u) (quoted_element (E\<lparr>uuidv4 := U\<rparr>) n u)"
  unfolding quoted_element_def[abs_def] by (intro sm; simp)

lemma sim_split_token [sm]:
  "sim tok tok' \<Longrightarrow> sim (split_token tok quoted u) (split_token tok' quoted u)"
  unfolding split_token_def[abs_def] by (intro sm; simp)

lemma sim_split_element [sm]:
  "sim (split_element E n u) (split_element (E\<lparr>uuidv4 := U\<rparr>) n u)"
  unfolding split_element_def[abs_def] by (intro sm)

lemma sim_split_cap [sm]:
  "sim (split_cap E n splitCount u) (split_cap (E\<lparr>uuidv4 := U\<rparr>) n splitCount u)"
  unfolding split_cap_def[abs_def] by (intro sm)

lemma sim_text_before_closure [sm]:
  "sim (text_before_closure E n u) (text_before_closure (E\<lparr>uuidv4 := U\<rparr>) n u)"
  unfolding text_before_closure_def[abs_def] pure_env by (intro sm; simp)

lemma sim_closure_element [sm]:
  "sim pc pc' \<Longrightarrow> sim (closure_element E pc n u) (closure_element (E\<lparr>uuidv4 := U\<rparr>) pc' n u)"
  unfolding closure_element_def[abs_def] by (intro sm; simp)

lemma sim_unnamedArgument_loop [sm]:
  "sim pc pc' \<Longrightarrow> sim (unnamedArgument_loop E pc splitCount n u)
     (unnamedArgument_loop (E\<lparr>uuidv4 := U\<rparr>) pc' splitCount n u)"
proof (induction n arbitrary: u)
  case 0
  show ?case unfolding unnamedArgument_loop.simps(1)[abs_def] by (intro sm)
next
  case (Suc n)
  show ?case unfolding unnamedArgument_loop.simps(2)[abs_def] by (intro sm Suc; simp)
qed

lemma sim_scan_unnamed [sm]:
  "sim pc pc' \<Longrightarrow> sim (scan_unnamed E pc n split splitCount raw)
     (scan_unnamed (E\<lparr>uuidv4 := U\<rparr>) pc' n split splitCount raw)"
  unfolding scan_unnamed_def[abs_def] by (intro sm; simp)

lemma sim_parseUnnamedArgument [sm]:
  "sim pc pc' \<Longrightarrow> sim (parseUnnamedArgument E pc n split splitCount raw)
     (parseUnnamedArgument (E\<lparr>uuidv4 := U\<rparr>) pc' n split splitCount raw)"
  unfolding parseUnnamedArgument_def[abs_def] pure_env by (intro sm)


text \<open>Statements.\<close>

lemma sim_blockComment:
  "sim (parseBlockComment E n) (parseBlockComment (E\<lparr>uuidv4 := U\<rparr>) n)
   \<and> sim (blockComment_loop E n) (blockComment_loop (E\<lparr>uuidv4 := U\<rparr>) n)"
proof (induction n)
  case 0
  show ?case
    unfolding parseBlockComment.simps(1)[abs_def] blockComment_loop.simps(1)[abs_def]
    by (intro conjI sm)
next
  case (Suc n)
  have 1: "sim (blockComment_loop E (Suc n)) (blockComment_loop (E\<lparr>uuidv4 := U\<rparr>) (Suc n))"
    unfolding blockComment_loop.simps(2)[abs_def] using Suc by (intro sm) auto
  have 2: "sim (parseBlockComment E (Suc n)) (parseBlockComment (E\<lparr>uuidv4 := U\<rparr>) (Suc n))"
    unfolding parseBlockComment.simps(2)[abs_def] pure_env using Suc by (intro sm) auto
  show ?case by (rule conjI [OF 2 1])
qed

lemmas sim_parseBlockComment [sm] = sim_blockComment [THEN conjunct1]

lemma sim_parseComment [sm]: "sim (parseComment E n) (parseComment (E\<lparr>uuidv4 := U\<rparr>) n)"
  unfolding parseComment_def[abs_def] pure_env by (intro sm) auto

lemma plain_forget: "forget_ids p = forget_ids p' \<Longrightarrow> plain p \<Longrightarrow> plain p'"
  by (erule forget_idsE) (simp add: plain_def)

lemma sim_cong:
  assumes "\<And>p. plain p \<Longrightarrow> a p = a0 p" "\<And>p. plain p \<Longrightarrow> b p = b0 p" "sim a0 b0"
  shows "sim a b"
proof (rule simI)
  fix p p' assume pl: "plain p" and e: "forget_ids p = forget_ids p'"
  have "plain p'" using e pl by (rule plain_forget)
  then have "b p' = b0 p'" by (rule assms(2))
  moreover have "a p = a0 p" using pl by (rule assms(1))
  moreover have "alike (a0 p) (b0 p')" using assms(3) pl e by (rule simD)
  ultimately show "alike (a p) (b p')" by simp
qed

text \<open>A text without \<^verbatim>\<open>/parser-flag \<close> has no statement that sets a flag.\<close>

lemma testParserFlag_plain:
  assumes "plain p" "testParserFlag p = Inr (x, q)" shows "\<not> x"
proof
  assume x
  then have "sublist flag_text (drop (index p - 1) (p_text p))"
    using assms(2) unfolding testParserFlag_def flag_text_def by (auto dest: testSymbol_ahead)
  then have "flag_ahead p" by (simp add: flag_ahead_def)
  then show False using assms(1) by (auto simp: plain_def dest: flag_ahead_sublist)
qed

lemma no_flag_statement:
  assumes "plain p"
  shows "bnd testParserFlag (\<lambda>x. if x then a else b) p
       = bnd testParserFlag (\<lambda>x. if x then throw TypeError else b) p"
proof (cases "testParserFlag p")
  case (Inl e)
  then show ?thesis by (simp add: bnd_def)
next
  case (Inr r)
  obtain x q where r: "r = (x, q)" by (cases r)
  have "\<not> x" using assms Inr unfolding r by (rule testParserFlag_plain)
  then show ?thesis using Inr r by (simp add: bnd_def)
qed

lemma sim_testParserFlag: "sim testParserFlag testParserFlag"
  unfolding testParserFlag_def[abs_def] by (intro sm)

lemma sim_bnd_testParserFlag:
  assumes "sim b b'"
  shows "sim (bnd testParserFlag (\<lambda>x. if x then a else b))
             (bnd testParserFlag (\<lambda>x. if x then a' else b'))"
proof (rule sim_cong)
  show "sim (bnd testParserFlag (\<lambda>x. if x then throw TypeError else b))
            (bnd testParserFlag (\<lambda>x. if x then throw TypeError else b'))"
    by (intro sm sim_testParserFlag assms)
qed (erule no_flag_statement)+

lemma sim_parseRunShorthand [sm]:
  "sim pc pc' \<Longrightarrow> sim (parseRunShorthand E pc n) (parseRunShorthand (E\<lparr>uuidv4 := U\<rparr>) pc' n)"
  unfolding parseRunShorthand_def[abs_def] pure_env by (intro sm; simp)

lemma sim_parseBreakPoint [sm]: "sim (parseBreakPoint E) (parseBreakPoint (E\<lparr>uuidv4 := U\<rparr>))"
  unfolding parseBreakPoint_def[abs_def] pure_env by (intro sm; simp)

lemma sim_parseBreak [sm]:
  "sim pc pc' \<Longrightarrow> sim (parseBreak E pc n) (parseBreak (E\<lparr>uuidv4 := U\<rparr>) pc' n)"
  unfolding parseBreak_def[abs_def] pure_env by (intro sm; simp)

lemma sim_push_variableNames [sm]: "sim (push_variableNames xs) (push_variableNames xs)"
proof (induction xs)
  case Nil
  show ?case unfolding push_variableNames.simps(1)[abs_def] by (intro sm)
next
  case (Cons x xs)
  show ?case unfolding push_variableNames.simps(2)[abs_def] by (intro sm Cons)
qed

lemma sim_register_variables [sm]:
  "sim (register_variables E cmd) (register_variables (E\<lparr>uuidv4 := U\<rparr>) cmd)"
  unfolding register_variables_def[abs_def] pure_env by (intro sm; simp)

lemma sim_parse_unnamed_of_command [sm]:
  "sim pc pc' \<Longrightarrow> sim (parse_unnamed_of_command E pc n cmd)
     (parse_unnamed_of_command (E\<lparr>uuidv4 := U\<rparr>) pc' n cmd)"
  unfolding parse_unnamed_of_command_def[abs_def] pure_env by (intro sm; simp)

lemma sim_command_name [sm]: "sim (command_name n) (command_name n)"
  unfolding command_name_def[abs_def] by (intro sm; simp)

lemma sim_parseCommand [sm]:
  "sim pc pc' \<Longrightarrow> sim (parseCommand E pc n) (parseCommand (E\<lparr>uuidv4 := U\<rparr>) pc' n)"
  unfolding parseCommand_def[abs_def] pure_env by (intro sm; simp)

lemma sim_statement [sm]:
  "sim pc pc' \<Longrightarrow> sim (statement E pc n cl inject) (statement (E\<lparr>uuidv4 := U\<rparr>) pc' n cl inject)"
  unfolding statement_def[abs_def]
  by (intro sim_bnd_testParserFlag sm; simp)

lemma sim_pipes [sm]: "sim (pipes inject) (pipes inject)"
  unfolding pipes_def[abs_def] by (intro sm)

lemma sim_closure_loop [sm]:
  "sim pc pc' \<Longrightarrow> sim (closure_loop E pc n cl inject) (closure_loop (E\<lparr>uuidv4 := U\<rparr>) pc' n cl inject)"
proof (induction n arbitrary: inject)
  case 0
  show ?case unfolding closure_loop.simps(1)[abs_def] by (intro sm)
next
  case (Suc n)
  show ?case unfolding closure_loop.simps(2)[abs_def] by (intro sm Suc)
qed

text \<open>Closures and the entry point.\<close>

lemma sim_enter_closure [sm]:
  "sim (modify (\<lambda>p. p\<lparr>scope := Some (cl_scope (closures p ! cl)), closure := Some cl\<rparr>))
       (modify (\<lambda>p. p\<lparr>scope := Some (cl_scope (closures p ! cl)), closure := Some cl\<rparr>))"
proof (rule simI)
  fix p p' assume pl: "plain p" and e: "forget_ids p = forget_ids p'"
  from e obtain c u cs where p': "p' = over c u cs p"
    and m: "map forget_closure cs = map forget_closure (closures p)"
    by (rule forget_idsE)
  have s: "cl_scope (cs ! cl) = cl_scope (closures p ! cl)" using m by (rule nth_cl_scope)
  show "alike (modify (\<lambda>p. p\<lparr>scope := Some (cl_scope (closures p ! cl)), closure := Some cl\<rparr>) p)
     (modify (\<lambda>p. p\<lparr>scope := Some (cl_scope (closures p ! cl)), closure := Some cl\<rparr>) p')"
    unfolding p' using pl
    by (cases p) (simp add: modify_def alike_def plain_def forget_ids_def over_def m s)
qed

lemma sim_open_index [sm]:
  "sim (modify (\<lambda>p. p\<lparr>closureIndex := closureIndex p @ [x]\<rparr>))
       (modify (\<lambda>p. p\<lparr>closureIndex := closureIndex p @ [x]\<rparr>))"
proof (rule blind_modify)
  fix p c u cs
  show "over c u cs p\<lparr>closureIndex := closureIndex (over c u cs p) @ [x]\<rparr>
      = over c u cs (p\<lparr>closureIndex := closureIndex p @ [x]\<rparr>)"
    by (cases p) (simp add: over_def)
  show "plain p \<Longrightarrow> plain (p\<lparr>closureIndex := closureIndex p @ [x]\<rparr>)" for p
    by (simp add: plain_def)
qed

lemma sim_open_closure [sm]: "sim (open_closure isRoot) (open_closure isRoot)"
  unfolding open_closure_def[abs_def] by (intro sm; simp)

lemma sim_finish_closure [sm]: "sim (finish_closure isRoot l) (finish_closure isRoot l)"
  unfolding finish_closure_def[abs_def] by (intro sm; simp add: forget_closure_def)

lemma sim_leave_closure [sm]: "sim (leave_closure l) (leave_closure l)"
proof (rule simI)
  fix p p' assume pl: "plain p" and e: "forget_ids p = forget_ids p'"
  from e obtain c u cs where p': "p' = over c u cs p"
    and m: "map forget_closure cs = map forget_closure (closures p)"
    by (rule forget_idsE)
  have s: "cl_scope (cs ! l_closure l) = cl_scope (closures p ! l_closure l)"
    using m by (rule nth_cl_scope)
  show "alike (leave_closure l p) (leave_closure l p')"
    unfolding p' using pl
    by (cases p) (simp add: leave_closure_def alike_def plain_def forget_ids_def over_def m s)
qed

lemma sim_closure_content [sm]:
  "sim pc pc' \<Longrightarrow> sim (closure_content E pc n isRoot l)
     (closure_content (E\<lparr>uuidv4 := U\<rparr>) pc' n isRoot l)"
  unfolding closure_content_def[abs_def] by (intro sm; simp add: forget_closure_def)

lemma sim_parseClosure_body [sm]:
  "sim pc pc' \<Longrightarrow> sim (parseClosure_body E pc n isRoot)
     (parseClosure_body (E\<lparr>uuidv4 := U\<rparr>) pc' n isRoot)"
  unfolding parseClosure_body_def[abs_def] by (intro sm)

lemma sim_parseClosure: "sim (parseClosure E n isRoot) (parseClosure (E\<lparr>uuidv4 := U\<rparr>) n isRoot)"
proof (induction n arbitrary: isRoot)
  case 0
  show ?case unfolding parseClosure.simps(1)[abs_def] by (intro sm)
next
  case (Suc n)
  show ?case unfolding parseClosure.simps(2)[abs_def] by (intro sm Suc)
qed

lemma forget_init_parse:
  assumes "forget_ids p = forget_ids p'"
  shows "forget_ids (init_parse E t verify given a d p)
       = forget_ids (init_parse (E\<lparr>uuidv4 := U\<rparr>) t verify given a d p')"
proof -
  from assms obtain c u cs where p': "p' = over c u cs p"
    and m: "map forget_closure cs = map forget_closure (closures p)"
    by (rule forget_idsE)
  show ?thesis unfolding p' by (cases p) (simp add: init_parse_def forget_ids_def over_def m)
qed




end
